theory Spec2Isabelle
  imports Main "HOL-Library.Word"
begin

unbundle bit_operations_syntax

section \<open>Common conventions\<close>

text \<open>
  The development embeds parts of \<^verbatim>\<open>renderdoc/driver/vulkan/vk_debug.cpp\<close> and
  \<^verbatim>\<open>renderdoc/driver/vulkan/vk_serialise.cpp\<close>.

  A call that cannot return a value is a \<open>fault\<close>:
  \<^item> \<open>AssertFailed\<close>: an \<^verbatim>\<open>RDCASSERT\<close> whose condition is false. The macro is declared
    outside the embedded files; the design document calls a failed assertion fatal
    (process-ending), so the model stops at it.
  \<^item> \<open>OutOfRange\<close>: a read or write through a raw pointer, C array or vector iterator
    outside the object (undefined behaviour in C++).
  \<^item> \<open>UndefinedShift\<close>: a shift of a 32-bit operand by 32 or more (undefined behaviour).
  \<^item> \<open>Diverges\<close>: a loop that can never leave its current iteration.
\<close>

datatype fault = AssertFailed string | OutOfRange string | UndefinedShift | Diverges

type_synonym u16 = "16 word"
type_synonym u32 = "32 word"
type_synonym u64 = "64 word"

text \<open>
  Modelled from the spec: the macro \<^verbatim>\<open>RDCASSERT\<close> is declared outside the embedded
  files. The design document treats a failed assertion as fatal, with no safe
  continuation, so \<open>RDCASSERT c msg k\<close> continues with \<open>k\<close> when the condition holds
  and ends the call with \<open>AssertFailed msg\<close> otherwise.
\<close>

definition RDCASSERT :: "bool \<Rightarrow> string \<Rightarrow> fault + 'a \<Rightarrow> fault + 'a" where
  "RDCASSERT c msg k = (if c then k else Inl (AssertFailed msg))"

text \<open>Sequencing: the first fault ends the call.\<close>

definition then_do :: "fault + 'a \<Rightarrow> ('a \<Rightarrow> fault + 'b) \<Rightarrow> fault + 'b" where
  "then_do m f = (case m of Inl e \<Rightarrow> Inl e | Inr x \<Rightarrow> f x)"

section \<open>GPUBuffer: the ring allocator\<close>

text \<open>
  \<^verbatim>\<open>VkDeviceSize\<close> is a 64-bit unsigned integer, the \<^verbatim>\<open>bindoffset\<close> out-parameter a
  32-bit one. Only the four fields that \<^verbatim>\<open>Create\<close> and \<^verbatim>\<open>Map\<close> compute with are kept;
  the buffer and memory handles play no part in the offsets.
\<close>

record GPUBuffer =
  sz :: u64
  totalsize :: u64
  curoffset :: u64
  align :: u64

text \<open>
  Modelled from the spec: \<^verbatim>\<open>AlignUp\<close> is declared outside the embedded files. The design
  document requires that every offset derived from it is aligned to the alignment, so it
  is taken as rounding up to the next multiple of the alignment, in 64-bit arithmetic.
\<close>

definition AlignUp :: "u64 \<Rightarrow> u64 \<Rightarrow> u64" where
  "AlignUp x a = ((x + (a - 1)) div a) * a"

text \<open>
  \<^verbatim>\<open>GPUBuffer::Create\<close>: \<open>minalign\<close> stands for the device limit
  \<^verbatim>\<open>minUniformBufferOffsetAlignment\<close>; \<open>ok\<close> for the conjunction of the four driver
  results that the function asserts to be \<^verbatim>\<open>VK_SUCCESS\<close>.
\<close>

definition Create :: "u64 \<Rightarrow> u64 \<Rightarrow> u32 \<Rightarrow> bool \<Rightarrow> fault + GPUBuffer" where
  "Create minalign size0 ringSize ok =
     (let b = \<lparr> sz = size0,
                totalsize = (if ringSize = 1 then size0 else AlignUp size0 minalign * ucast ringSize),
                curoffset = 0,
                align = minalign \<rparr>
      in if ok then Inr b else Inl (AssertFailed ''vkr == VK_SUCCESS''))"

text \<open>
  One call of \<^verbatim>\<open>GPUBuffer::Map\<close>: \<open>has_bind\<close> says whether the \<^verbatim>\<open>bindoffset\<close>
  pointer is non-null, \<open>usedsize\<close> is the requested size (0 selects \<^verbatim>\<open>sz\<close>) and
  \<open>map_ok\<close> is whether the driver's \<^verbatim>\<open>MapMemory\<close> returns \<^verbatim>\<open>VK_SUCCESS\<close>.
\<close>

record map_request =
  has_bind :: bool
  usedsize :: u64
  map_ok :: bool

definition map_size :: "GPUBuffer \<Rightarrow> map_request \<Rightarrow> u64" where
  "map_size b r = (if usedsize r > 0 then usedsize r else sz b)"

definition map_offset :: "GPUBuffer \<Rightarrow> map_request \<Rightarrow> u64" where
  "map_offset b r =
     (let offset = (if has_bind r then curoffset b else 0)
      in if offset + map_size b r > totalsize b then 0 else offset)"

text \<open>
  The result is the updated buffer and the value stored through \<^verbatim>\<open>bindoffset\<close>
  (\<open>None\<close> when the pointer is null): the 64-bit offset cast to \<^verbatim>\<open>uint32_t\<close>.
\<close>

definition Map :: "GPUBuffer \<Rightarrow> map_request \<Rightarrow> fault + (GPUBuffer \<times> u32 option)" where
  "Map b r =
     (let size0 = map_size b r;
          offset = map_offset b r
      in if \<not> (offset + size0 \<le> totalsize b) then Inl (AssertFailed ''offset + size <= totalsize'')
         else let b' = b\<lparr>curoffset := AlignUp (offset + size0) (align b)\<rparr>;
                  out = (if has_bind r then Some (ucast offset :: u32) else None)
              in if map_ok r then Inr (b', out) else Inl (AssertFailed ''vkr == VK_SUCCESS''))"

text \<open>A sequence of reservations, stopping at the first fault.\<close>

fun Map_seq :: "GPUBuffer \<Rightarrow> map_request list \<Rightarrow> fault + (GPUBuffer \<times> u32 option list)" where
  "Map_seq b [] = Inr (b, [])"
| "Map_seq b (r # rs) =
     (case Map b r of
        Inl e \<Rightarrow> Inl e
      | Inr (b', out) \<Rightarrow>
          (case Map_seq b' rs of
             Inl e \<Rightarrow> Inl e
           | Inr (b'', outs) \<Rightarrow> Inr (b'', out # outs)))"

text \<open>
  The invariant of the write cursor between two calls of \<^verbatim>\<open>Map\<close>: it is a multiple of
  the alignment and lies less than one alignment step above the capacity.
\<close>

definition ring_inv :: "GPUBuffer \<Rightarrow> bool" where
  "ring_inv b = (unat (curoffset b) mod unat (align b) = 0 \<and>
                 unat (curoffset b) < unat (totalsize b) + unat (align b))"

section \<open>CacheMeshDisplayPipelines: the cache key\<close>

text \<open>
  The fields of \<^verbatim>\<open>MeshFormat\<close> that the key computation reads. Enumerations
  (\<^verbatim>\<open>topo\<close>, \<^verbatim>\<open>specialFormat\<close>, \<^verbatim>\<open>compType\<close>) are kept as their 32-bit values; \<^verbatim>\<open>buf\<close>
  is a \<^verbatim>\<open>ResourceId\<close>, whose default-constructed (null) value is 0.
\<close>

type_synonym ResourceId = u64

record MeshFormat =
  idxByteWidth :: u32
  topo :: u32
  specialFormat :: u32
  compByteWidth :: u32
  compCount :: u32
  compType :: u32
  stride :: u32
  buf :: ResourceId

record ResourceFormat =
  fmt_special :: bool
  fmt_specialFormat :: u32
  fmt_compByteWidth :: u32
  fmt_compCount :: u32
  fmt_compType :: u32

text \<open>
  The \<^verbatim>\<open>ResourceFormat\<close> that \<^verbatim>\<open>CacheMeshDisplayPipelines\<close> fills in from a mesh format;
  \<open>unknown\<close> stands for the enumerator \<^verbatim>\<open>eSpecial_Unknown\<close>.
\<close>

definition mesh_fmt :: "u32 \<Rightarrow> MeshFormat \<Rightarrow> ResourceFormat" where
  "mesh_fmt unknown m =
     \<lparr> fmt_special = (specialFormat m \<noteq> unknown),
       fmt_specialFormat = specialFormat m,
       fmt_compByteWidth = compByteWidth m,
       fmt_compCount = compCount m,
       fmt_compType = compType m \<rparr>"

text \<open>
  The key computed at the head of \<^verbatim>\<open>CacheMeshDisplayPipelines\<close>. \<open>MakeVkFormat\<close>,
  \<open>unknown\<close> (\<^verbatim>\<open>eSpecial_Unknown\<close>) and \<open>undefined_fmt\<close> (\<^verbatim>\<open>VK_FORMAT_UNDEFINED\<close>)
  are declared outside the embedded file and are parameters.

  \<^verbatim>\<open>key\<close> and \<^verbatim>\<open>bit\<close> are \<^verbatim>\<open>uint64_t\<close>. In \<^verbatim>\<open>((uint32_t)x & m) << bit\<close> the left operand
  is a 32-bit unsigned integer, so the shift is a 32-bit shift: its result wraps at
  \<open>2^32\<close> before it is widened and or-ed into the key, and a shift by 32 or more is
  undefined. \<^verbatim>\<open>bit\<close> runs through 0, 1, 7, 15, 23 and 39.
\<close>

definition CacheMeshDisplayPipelines_key ::
    "(ResourceFormat \<Rightarrow> u32) \<Rightarrow> u32 \<Rightarrow> u32 \<Rightarrow> MeshFormat \<Rightarrow> MeshFormat \<Rightarrow> fault + u64" where
  "CacheMeshDisplayPipelines_key MakeVkFormat unknown undefined_fmt primary secondary =
     (let key0 = (0 :: u64);
          key1 = (if idxByteWidth primary = 4 then key0 OR push_bit 0 1 else key0)
      in if \<not> topo primary < 64 then Inl (AssertFailed ''(uint32_t)primary.topo < 64'')
      else
        let key2 = key1 OR ucast (push_bit 1 (topo primary AND 0x3f) :: u32);
            primaryFmt = MakeVkFormat (mesh_fmt unknown primary);
            secondaryFmt = (if buf secondary = 0 then undefined_fmt
                            else MakeVkFormat (mesh_fmt unknown secondary));
            key3 = key2 OR ucast (push_bit 7 (primaryFmt AND 0xff) :: u32);
            key4 = key3 OR ucast (push_bit 15 (secondaryFmt AND 0xff) :: u32)
        in if \<not> stride primary \<le> 0xffff then Inl (AssertFailed ''primary.stride <= 0xffff'')
        else
          let key5 = key4 OR ucast (push_bit 23 (stride primary AND 0xffff) :: u32)
          in if buf secondary \<noteq> 0
             then (if \<not> stride secondary \<le> 0xffff
                   then Inl (AssertFailed ''secondary.stride <= 0xffff'')
                   else Inl UndefinedShift)
             else Inr key5)"

text \<open>
  The vertex format of the end-to-end example of the design document: three 32-bit floats
  of position in a 20-byte-stride triangle list, at two further strides.
\<close>

definition mesh_example :: "u32 \<Rightarrow> MeshFormat" where
  "mesh_example st = \<lparr> idxByteWidth = 2, topo = 3, specialFormat = 0, compByteWidth = 4,
                        compCount = 3, compType = 1, stride = st, buf = 1 \<rparr>"

definition mesh_none :: MeshFormat where
  "mesh_none = \<lparr> idxByteWidth = 0, topo = 0, specialFormat = 0, compByteWidth = 0,
                   compCount = 0, compType = 0, stride = 0, buf = 0 \<rparr>"

section \<open>Serialising handles through resource ids\<close>

text \<open>
  Messages written by \<^verbatim>\<open>RDCWARN\<close> and \<^verbatim>\<open>RDCERR\<close>, one constructor per call site of the
  embedded functions, with the values the message is formatted from.
\<close>

datatype log_entry =
    WarnMissingReference ResourceId
  | ErrNoSupport u32
  | ErrInvalidNextRead u32
  | ErrInvalidNextWrite u32
  | ErrStubSerialised u32
  | ErrUnexpectedConstant
  | WarnMultipleVertexIDs u32 u32
  | WarnIdenticalType u32 u32
  | WarnIdenticalConstant u32 u32
  | ErrUnexpectedComponentType

type_synonym VkHandle = u64

definition VK_NULL_HANDLE :: VkHandle where
  "VK_NULL_HANDLE = 0"

text \<open>
  What \<^verbatim>\<open>DoSerialiseViaResourceId\<close> asks of the \<^verbatim>\<open>VulkanResourceManager\<close>:
  \<^verbatim>\<open>HasLiveResource\<close> and \<^verbatim>\<open>GetLiveHandle\<close> (the map \<open>live\<close>), \<^verbatim>\<open>GetOriginalID\<close> and
  whether \<^verbatim>\<open>IsStructuredExporting(rm->GetState())\<close> holds.
\<close>

record VulkanResourceManager =
  live :: "ResourceId \<rightharpoonup> VkHandle"
  GetOriginalID :: "ResourceId \<Rightarrow> ResourceId"
  structured_exporting :: bool

definition HasLiveResource :: "VulkanResourceManager \<Rightarrow> ResourceId \<Rightarrow> bool" where
  "HasLiveResource rm i = (live rm i \<noteq> None)"

definition GetLiveHandle :: "VulkanResourceManager \<Rightarrow> ResourceId \<Rightarrow> VkHandle" where
  "GetLiveHandle rm i = (case live rm i of Some h \<Rightarrow> h | None \<Rightarrow> VK_NULL_HANDLE)"

text \<open>
  The serialiser: its mode is the template argument \<^verbatim>\<open>SerialiserMode\<close>; \<open>structurising\<close>
  is the answer of \<^verbatim>\<open>IsStructurising()\<close>, \<open>user_data\<close> the resource manager returned by
  \<^verbatim>\<open>GetUserData()\<close> (\<open>None\<close> for a null pointer), \<open>errored\<close> the flag raised by
  \<^verbatim>\<open>SetErrored()\<close>. The stream itself is introduced with \<^verbatim>\<open>SerialiseNext\<close> below.
\<close>

datatype SerialiserMode = Reading | Writing

record Serialiser =
  mode :: SerialiserMode
  structurising :: bool
  user_data :: "VulkanResourceManager option"
  errored :: bool

definition IsReading :: "'a Serialiser_scheme \<Rightarrow> bool" where
  "IsReading ser = (mode ser = Reading)"

definition IsWriting :: "'a Serialiser_scheme \<Rightarrow> bool" where
  "IsWriting ser = (mode ser = Writing)"

definition IsStructurising :: "'a Serialiser_scheme \<Rightarrow> bool" where
  "IsStructurising ser = structurising ser"

text \<open>
  The process-wide state the two functions touch: the static
  \<^verbatim>\<open>OptionalResources<Serialiser<SerialiserMode::Reading>>::Counter\<close> and the log.
\<close>

record globals =
  Counter :: int
  log :: "log_entry list"

text \<open>
  Constructor and destructor of the reading-side \<^verbatim>\<open>OptionalResources\<close>, and a scope
  \<^verbatim>\<open>{ OPTIONAL_RESOURCES(); body }\<close>.
\<close>

definition OptionalResources_ctor :: "globals \<Rightarrow> globals" where
  "OptionalResources_ctor g = g\<lparr>Counter := Counter g + 1\<rparr>"

definition OptionalResources_dtor :: "globals \<Rightarrow> globals" where
  "OptionalResources_dtor g = g\<lparr>Counter := Counter g - 1\<rparr>"

definition OPTIONAL_RESOURCES :: "(globals \<Rightarrow> globals \<times> 'a) \<Rightarrow> globals \<Rightarrow> globals \<times> 'a" where
  "OPTIONAL_RESOURCES body g =
     (case body (OptionalResources_ctor g) of (g', r) \<Rightarrow> (OptionalResources_dtor g', r))"

definition OptionalResourcesEnabled :: "globals \<Rightarrow> bool" where
  "OptionalResourcesEnabled g = (Counter g > 0)"

text \<open>
  \<^verbatim>\<open>DoSerialiseViaResourceId(ser, el)\<close>. \<open>GetResID\<close> (handle to id) and
  \<open>DoSerialise_id\<close> (the serialisation of a \<^verbatim>\<open>ResourceId\<close>: given the serialiser and the
  value of \<^verbatim>\<open>id\<close>, the serialiser afterwards and the value \<^verbatim>\<open>id\<close> then holds) are
  declared outside the embedded file and are parameters. The mode tests after the call
  are made on the mode of \<open>ser\<close>, which is fixed by the serialiser's type. The result is
  the global state, the serialiser and the value of \<^verbatim>\<open>el\<close> on return.
\<close>

definition DoSerialiseViaResourceId ::
    "(VkHandle \<Rightarrow> ResourceId) \<Rightarrow> (Serialiser \<Rightarrow> ResourceId \<Rightarrow> Serialiser \<times> ResourceId) \<Rightarrow>
     globals \<Rightarrow> Serialiser \<Rightarrow> VkHandle \<Rightarrow> globals \<times> Serialiser \<times> VkHandle" where
  "DoSerialiseViaResourceId GetResID DoSerialise_id g ser el =
     (let rm = user_data ser;
          id0 = (0 :: ResourceId);
          id1 = (if IsWriting ser \<and> rm \<noteq> None then GetResID el else id0);
          id2 = (case rm of
                   Some m \<Rightarrow> if IsStructurising ser then GetOriginalID m (GetResID el) else id1
                 | None \<Rightarrow> id1);
          (ser', id3) = DoSerialise_id ser id2
      in case rm of
           None \<Rightarrow> (g, ser', el)
         | Some m \<Rightarrow>
             if IsReading ser \<and> \<not> structured_exporting m
             then
               (if id3 \<noteq> 0
                then (if HasLiveResource m id3 then (g, ser', GetLiveHandle m id3)
                      else if \<not> OptionalResourcesEnabled g
                      then (g\<lparr>log := log g @ [WarnMissingReference id3]\<rparr>, ser', VK_NULL_HANDLE)
                      else (g, ser', VK_NULL_HANDLE))
                else (g, ser', VK_NULL_HANDLE))
             else (g, ser', el))"

text \<open>
  Concrete parameters for the examples: a handle's id is its value plus 100, reading
  delivers the id 7 from the stream, and the manager knows the live handle 42 of id 7 only.
\<close>

definition ex_GetResID :: "VkHandle \<Rightarrow> ResourceId" where
  "ex_GetResID h = h + 100"

definition ex_read_id :: "ResourceId \<Rightarrow> Serialiser \<Rightarrow> ResourceId \<Rightarrow> Serialiser \<times> ResourceId" where
  "ex_read_id v ser i = (ser, if mode ser = Reading then v else i)"

definition ex_rm :: "bool \<Rightarrow> VulkanResourceManager" where
  "ex_rm exporting = \<lparr> live = [7 \<mapsto> 42], GetOriginalID = (\<lambda>i. i), structured_exporting = exporting \<rparr>"

definition ex_reader :: "bool \<Rightarrow> Serialiser" where
  "ex_reader exporting =
     \<lparr> mode = Reading, structurising = False, user_data = Some (ex_rm exporting), errored = False \<rparr>"

section \<open>SerialiseNext: extension chains\<close>

text \<open>
  A \<^verbatim>\<open>pNext\<close> chain is a linked list of structures, each starting with its
  \<^verbatim>\<open>VkStructureType\<close>; it is modelled as the list of its nodes, \<open>[]\<close> being \<^verbatim>\<open>NULL\<close>. The
  members of a node other than \<^verbatim>\<open>sType\<close> and \<^verbatim>\<open>pNext\<close> are an opaque list of words.
\<close>

record node =
  n_sType :: u32
  n_members :: "u32 list"

text \<open>
  The switch over \<^verbatim>\<open>HANDLE_PNEXT()\<close> sorts a structure type into one of three kinds; the
  numeric values of the enumerators are declared outside the embedded file, and which
  platform structures are compiled in depends on the build, so the sorting is a parameter
  \<open>cls\<close> of the model.
  \<^item> \<open>PNEXT_STRUCT Walks\<close>: a \<^verbatim>\<open>PNEXT_STRUCT\<close> entry whose \<^verbatim>\<open>DoSerialise\<close> starts with
    \<^verbatim>\<open>SerialiseNext(ser, el.sType, el.pNext)\<close> and then serialises the members.
  \<^item> \<open>PNEXT_STRUCT Stub\<close>: a \<^verbatim>\<open>PNEXT_STRUCT\<close> entry whose \<^verbatim>\<open>DoSerialise\<close> only logs an error
    and erases the element: \<^verbatim>\<open>VkApplicationInfo\<close>, \<^verbatim>\<open>VkInstanceCreateInfo\<close>,
    \<^verbatim>\<open>VkLayerInstanceCreateInfo\<close>, \<^verbatim>\<open>VkLayerDeviceCreateInfo\<close>,
    \<^verbatim>\<open>VkDebugMarkerObjectNameInfoEXT\<close>, \<^verbatim>\<open>VkDebugMarkerObjectTagInfoEXT\<close>,
    \<^verbatim>\<open>VkDebugUtilsObjectNameInfoEXT\<close> and \<^verbatim>\<open>VkDebugUtilsObjectTagInfoEXT\<close>.
  \<^item> \<open>PNEXT_UNSUPPORTED\<close>: a \<^verbatim>\<open>PNEXT_UNSUPPORTED\<close> entry.
  \<^item> \<open>PNEXT_NONE\<close>: no entry (or \<^verbatim>\<open>VK_STRUCTURE_TYPE_MAX_ENUM\<close>): the switch does nothing.
\<close>

datatype struct_serialiser = Walks | Stub

datatype pnext_class = PNEXT_STRUCT struct_serialiser | PNEXT_UNSUPPORTED | PNEXT_NONE

text \<open>
  Modelled from the spec: the class \<^verbatim>\<open>Serialiser\<close> and its stream are declared outside the
  embedded file. The stream is taken as a list of items: a serialised
  \<^verbatim>\<open>VkStructureType\<close>, the absent and the present marker that \<^verbatim>\<open>SerialiseNullable\<close> puts
  before a value, and the serialised members of one structure. Reading an item of the
  wrong kind, or past the end, is a fault of the model.
\<close>

datatype item = IType u32 | INull | IPresent | IMembers "u32 list"

record ChunkSerialiser = Serialiser +
  stream :: "item list"

text \<open>
  The reading branch of \<^verbatim>\<open>SerialiseNext\<close>, on the log, the error flag and the stream.
  The result holds, besides these three, the parent \<^verbatim>\<open>sType\<close> read and the decoded
  \<^verbatim>\<open>pNext\<close>. A \<open>Walks\<close> structure is decoded by its \<^verbatim>\<open>DoSerialise\<close>: the nested
  \<^verbatim>\<open>SerialiseNext\<close> reads its \<^verbatim>\<open>sType\<close> and the rest of its chain, then its members follow.
\<close>

fun SerialiseNext_read ::
    "(u32 \<Rightarrow> pnext_class) \<Rightarrow> log_entry list \<Rightarrow> bool \<Rightarrow> item list \<Rightarrow>
     fault + (log_entry list \<times> bool \<times> item list \<times> u32 \<times> node list)" where
  "SerialiseNext_read cls lg err (IType p # INull # rest) = Inr (lg, err, rest, p, [])"
| "SerialiseNext_read cls lg err (IType p # IPresent # IType t # rest) =
     (case cls t of
        PNEXT_UNSUPPORTED \<Rightarrow> Inr (lg @ [ErrNoSupport t], True, rest, p, [])
      | PNEXT_NONE \<Rightarrow> Inr (lg @ [ErrInvalidNextRead t], err, rest, p, [])
      | PNEXT_STRUCT k \<Rightarrow>
          (case rest of
             INull # r \<Rightarrow> Inr (lg, err, r, p, [])
           | IPresent # r \<Rightarrow>
               (case k of
                  Stub \<Rightarrow>
                    Inr (lg @ [ErrStubSerialised t], err, r, p, [\<lparr>n_sType = t, n_members = []\<rparr>])
                | Walks \<Rightarrow>
                    (case SerialiseNext_read cls lg err r of
                       Inl e \<Rightarrow> Inl e
                     | Inr (lg', err', r', st, chain) \<Rightarrow>
                         (case r' of
                            IMembers m # r'' \<Rightarrow>
                              Inr (lg', err', r'', p, \<lparr>n_sType = st, n_members = m\<rparr> # chain)
                          | _ \<Rightarrow> Inl (OutOfRange ''stream''))))
           | _ \<Rightarrow> Inl (OutOfRange ''stream'')))"
| "SerialiseNext_read cls lg err _ = Inl (OutOfRange ''stream'')"

text \<open>
  The writing branch after the parent \<^verbatim>\<open>sType\<close>: the \<^verbatim>\<open>while(next)\<close> loop with its flag
  \<^verbatim>\<open>handled\<close>, and the closing null type. The result is the log, the items appended and
  the chain as it is left in memory.
  A \<open>Walks\<close> structure is written by its \<^verbatim>\<open>DoSerialise\<close>, which enters \<^verbatim>\<open>SerialiseNext\<close>
  again (its own \<^verbatim>\<open>sType\<close>, then the rest of the chain with a fresh \<^verbatim>\<open>handled\<close>) before the
  members, and the outer call returns. A \<open>Stub\<close> structure is announced by its type and
  present marker; its \<^verbatim>\<open>DoSerialise\<close> writes nothing, logs an error and erases the
  structure (\<^verbatim>\<open>RDCEraseEl(el)\<close>, which also clears its \<^verbatim>\<open>pNext\<close>) apart from the \<^verbatim>\<open>sType\<close>
  it sets again, and the outer call returns.
\<close>

fun walk_pNext ::
    "(u32 \<Rightarrow> pnext_class) \<Rightarrow> bool \<Rightarrow> log_entry list \<Rightarrow> node list \<Rightarrow>
     log_entry list \<times> item list \<times> node list" where
  "walk_pNext cls handled lg [] = (lg, [INull], [])"
| "walk_pNext cls handled lg (n # ns) =
     (case cls (n_sType n) of
        PNEXT_STRUCT Walks \<Rightarrow>
          (case walk_pNext cls False lg ns of
             (lg', items, ns') \<Rightarrow>
               (lg', [IPresent, IType (n_sType n), IPresent, IType (n_sType n)] @ items
                       @ [IMembers (n_members n)],
                n # ns'))
      | PNEXT_STRUCT Stub \<Rightarrow>
          (lg @ [ErrStubSerialised (n_sType n)], [IPresent, IType (n_sType n), IPresent],
           [\<lparr>n_sType = n_sType n, n_members = []\<rparr>])
      | PNEXT_UNSUPPORTED \<Rightarrow>
          (case walk_pNext cls True (lg @ [ErrNoSupport (n_sType n)]) ns of
             (lg', items, ns') \<Rightarrow> (lg', items, n # ns'))
      | PNEXT_NONE \<Rightarrow>
          (case walk_pNext cls handled
                  (if handled then lg else lg @ [ErrInvalidNextWrite (n_sType n)]) ns of
             (lg', items, ns') \<Rightarrow> (lg', items, n # ns')))"

text \<open>
  \<^verbatim>\<open>SerialiseNext(ser, sType, pNext)\<close>: the reading branch is taken when the serialiser
  reads and does not structurise, the other branch otherwise. The result is the global
  state, the serialiser, and the values of \<^verbatim>\<open>sType\<close> and of the chain behind \<^verbatim>\<open>pNext\<close> on
  return.
\<close>

definition SerialiseNext ::
    "(u32 \<Rightarrow> pnext_class) \<Rightarrow> globals \<Rightarrow> ChunkSerialiser \<Rightarrow> u32 \<Rightarrow> node list \<Rightarrow>
     fault + (globals \<times> ChunkSerialiser \<times> u32 \<times> node list)" where
  "SerialiseNext cls g ser sType pNext =
     (if IsReading ser \<and> \<not> IsStructurising ser
      then (case SerialiseNext_read cls (log g) (errored ser) (stream ser) of
              Inl e \<Rightarrow> Inl e
            | Inr (lg, err, rest, p, chain) \<Rightarrow>
                Inr (g\<lparr>log := lg\<rparr>, ser\<lparr>errored := err, stream := rest\<rparr>, p, chain))
      else (case walk_pNext cls False (log g) pNext of
              (lg, items, chain) \<Rightarrow>
                Inr (g\<lparr>log := lg\<rparr>, ser\<lparr>stream := stream ser @ IType sType # items\<rparr>,
                     sType, chain)))"

text \<open>
  The stream of a chain in which every node is serialised, following the design
  document: the parent's type, then per node its type behind a present marker and the
  node itself behind another, which recursively holds the rest of the chain before its
  members; a null type ends the chain.
\<close>

fun chain_stream :: "u32 \<Rightarrow> node list \<Rightarrow> item list" where
  "chain_stream p [] = [IType p, INull]"
| "chain_stream p (n # ns) =
     [IType p, IPresent, IType (n_sType n), IPresent] @ chain_stream (n_sType n) ns
       @ [IMembers (n_members n)]"

definition no_support_entries :: "log_entry list \<Rightarrow> u32 list" where
  "no_support_entries lg = concat (map (\<lambda>e. case e of ErrNoSupport t \<Rightarrow> [t] | _ \<Rightarrow> []) lg)"

text \<open>
  Parameters for the examples: structure types 1 and 2 have full serialisers, 3 has a stub
  serialiser, 4 is compiled out, every other value is unknown.
\<close>

definition ex_cls :: "u32 \<Rightarrow> pnext_class" where
  "ex_cls t = (if t = 1 \<or> t = 2 then PNEXT_STRUCT Walks
               else if t = 3 then PNEXT_STRUCT Stub
               else if t = 4 then PNEXT_UNSUPPORTED
               else PNEXT_NONE)"

definition ex_ser :: "SerialiserMode \<Rightarrow> item list \<Rightarrow> ChunkSerialiser" where
  "ex_ser m s = \<lparr> mode = m, structurising = False, user_data = None, errored = False, stream = s \<rparr>"

definition ex_node :: "u32 \<Rightarrow> node" where
  "ex_node t = \<lparr> n_sType = t, n_members = [t + 10] \<rparr>"

section \<open>SPIR-V words\<close>

text \<open>
  The enumerators of namespace \<^verbatim>\<open>spv\<close> that the two patching functions use are declared
  in the SPIR-V header, outside the embedded files. The functions are modelled for any
  values of them, collected in a record; \<open>WordCountShift\<close> is a bit count.
\<close>

record spv =
  WordCountShift :: nat
  OpCodeMask :: u32
  OpConstant :: u32
  OpDecorate :: u32
  OpMemberDecorate :: u32
  OpFunction :: u32
  OpVariable :: u32
  OpTypeVoid :: u32
  OpTypeInt :: u32
  OpTypeFloat :: u32
  OpTypeVector :: u32
  OpTypeStruct :: u32
  OpTypeRuntimeArray :: u32
  OpTypePointer :: u32
  OpTypeForwardPointer :: u32
  DecorationBuiltIn :: u32
  DecorationDescriptorSet :: u32
  DecorationBinding :: u32
  DecorationOffset :: u32
  DecorationArrayStride :: u32
  DecorationBufferBlock :: u32
  BuiltInVertexId :: u32
  StorageClassInput :: u32
  StorageClassUniform :: u32

text \<open>The values of the SPIR-V 1.0 header, for the examples.\<close>

definition spv10 :: spv where
  "spv10 = \<lparr> WordCountShift = 16, OpCodeMask = 0xffff, OpConstant = 43, OpDecorate = 71,
      OpMemberDecorate = 72, OpFunction = 54, OpVariable = 59, OpTypeVoid = 19, OpTypeInt = 21,
      OpTypeFloat = 22, OpTypeVector = 23, OpTypeStruct = 30, OpTypeRuntimeArray = 29,
      OpTypePointer = 32, OpTypeForwardPointer = 39, DecorationBuiltIn = 11,
      DecorationDescriptorSet = 34, DecorationBinding = 33, DecorationOffset = 35,
      DecorationArrayStride = 6, DecorationBufferBlock = 3, BuiltInVertexId = 5,
      StorageClassInput = 1, StorageClassUniform = 2 \<rparr>"

text \<open>
  The two fields of the first word of an instruction:
  \<^verbatim>\<open>uint16_t WordCount = spirv[it]>>spv::WordCountShift\<close> and
  \<^verbatim>\<open>spv::Op(spirv[it]&spv::OpCodeMask)\<close>.
\<close>

definition WordCount :: "spv \<Rightarrow> u32 \<Rightarrow> u16" where
  "WordCount K w = ucast (drop_bit (WordCountShift K) w)"

definition opcode :: "spv \<Rightarrow> u32 \<Rightarrow> u32" where
  "opcode K w = w AND OpCodeMask K"

definition MakeSPIRVOp :: "spv \<Rightarrow> u32 \<Rightarrow> u32 \<Rightarrow> u32" where
  "MakeSPIRVOp K op wc = (op AND OpCodeMask K) OR push_bit (WordCountShift K) wc"

section \<open>PatchFixedColShader\<close>

text \<open>
  The blob is the embedded resource \<^verbatim>\<open>fixedcolfs_spv\<close>, seen through the union as
  \<^verbatim>\<open>spirvLength\<close> 32-bit words; the resource itself is not among the embedded files and is
  a parameter. A \<^verbatim>\<open>float\<close> is kept as its 32-bit pattern. The comparison
  \<^verbatim>\<open>alias.data[it+3] == 1.1f\<close> holds exactly for the pattern of \<^verbatim>\<open>1.1f\<close>: the constant is
  neither a zero nor a NaN, so no other pattern compares equal to it; likewise for
  \<^verbatim>\<open>2.2f\<close>, \<^verbatim>\<open>3.3f\<close> and \<^verbatim>\<open>4.4f\<close>.
\<close>

definition f1_1 :: u32 where "f1_1 = 0x3f8ccccd"
definition f2_2 :: u32 where "f2_2 = 0x400ccccd"
definition f3_3 :: u32 where "f3_3 = 0x40533333"
definition f4_4 :: u32 where "f4_4 = 0x408ccccd"

type_synonym colour = "u32 \<times> u32 \<times> u32 \<times> u32"

text \<open>
  The body of the \<^verbatim>\<open>if(opcode == spv::OpConstant)\<close>: the blob and the log afterwards.
  The access \<^verbatim>\<open>alias.data[it+3]\<close> is outside the blob when \<open>it + 3\<close> is not below its
  length.
\<close>

definition patch_constant ::
    "colour \<Rightarrow> log_entry list \<Rightarrow> u32 list \<Rightarrow> nat \<Rightarrow> fault + (u32 list \<times> log_entry list)" where
  "patch_constant col lg spirv it =
     (case col of (c0, c1, c2, c3) \<Rightarrow>
        if \<not> it + 3 < length spirv then Inl (OutOfRange ''alias.data[it+3]'')
        else if spirv ! (it + 3) = f1_1 then Inr (spirv[it + 3 := c0], lg)
        else if spirv ! (it + 3) = f2_2 then Inr (spirv[it + 3 := c1], lg)
        else if spirv ! (it + 3) = f3_3 then Inr (spirv[it + 3 := c2], lg)
        else if spirv ! (it + 3) = f4_4 then Inr (spirv[it + 3 := c3], lg)
        else Inr (spirv, lg @ [ErrUnexpectedConstant]))"

text \<open>
  The \<^verbatim>\<open>while(it < spirvLength)\<close> loop. When \<^verbatim>\<open>WordCount\<close> is 0, \<^verbatim>\<open>it\<close> does not move and
  the first word of the instruction is never written, so the loop cannot end: the model
  answers \<open>Diverges\<close>.
\<close>

function patch_loop ::
    "spv \<Rightarrow> colour \<Rightarrow> log_entry list \<Rightarrow> u32 list \<Rightarrow> nat \<Rightarrow> fault + (u32 list \<times> log_entry list)" where
  "patch_loop K col lg spirv it =
     (if it < length spirv
      then
        (case (if opcode K (spirv ! it) = OpConstant K then patch_constant col lg spirv it
               else Inr (spirv, lg)) of
           Inl e \<Rightarrow> Inl e
         | Inr (spirv', lg') \<Rightarrow>
             if WordCount K (spirv ! it) = 0 then Inl Diverges
             else patch_loop K col lg' spirv' (it + unat (WordCount K (spirv ! it))))
      else Inr (spirv, lg))"
  by pat_completeness auto
termination
proof (relation "measure (\<lambda>(K, col, lg, spirv, it). length spirv - it)", goal_cases)
  case 1
  show ?case by simp
next
  case (2 K col lg spirv it x2 x y)
  have l: "length x = length spirv"
    using 2 by (auto simp: patch_constant_def split: if_splits prod.splits)
  have "0 < unat (WordCount K (spirv ! it))"
    using 2 by (simp add: unat_gt_0)
  then show ?case using 2(1) l by simp
qed

text \<open>
  The patching part of \<^verbatim>\<open>PatchFixedColShader\<close>: the words handed to
  \<^verbatim>\<open>vkCreateShaderModule\<close>, and the log.
\<close>

definition PatchFixedColShader_spirv ::
    "spv \<Rightarrow> u32 list \<Rightarrow> colour \<Rightarrow> log_entry list \<Rightarrow> fault + (u32 list \<times> log_entry list)" where
  "PatchFixedColShader_spirv K fixedcolfs_spv col lg = patch_loop K col lg fixedcolfs_spv 5"

text \<open>
  The claim in its own words. The instructions of a blob start at word 5 and follow each
  other at the distance of their word counts.
\<close>

function instructions :: "spv \<Rightarrow> u32 list \<Rightarrow> nat \<Rightarrow> nat list" where
  "instructions K spirv it =
     (if it < length spirv
      then it # (if WordCount K (spirv ! it) = 0 then []
                 else instructions K spirv (it + unat (WordCount K (spirv ! it))))
      else [])"
  by pat_completeness auto
termination
proof (relation "measure (\<lambda>(K, spirv, it). length spirv - it)", goal_cases)
  case 1
  show ?case by simp
next
  case (2 K spirv it)
  have "0 < unat (WordCount K (spirv ! it))"
    using 2 by (simp add: unat_gt_0)
  then show ?case using 2(1) by simp
qed

definition constant_sites :: "spv \<Rightarrow> u32 list \<Rightarrow> nat \<Rightarrow> nat list" where
  "constant_sites K spirv it =
     map (\<lambda>i. i + 3) (filter (\<lambda>i. opcode K (spirv ! i) = OpConstant K) (instructions K spirv it))"

definition replace_sentinel :: "colour \<Rightarrow> u32 \<Rightarrow> u32" where
  "replace_sentinel col w =
     (case col of (c0, c1, c2, c3) \<Rightarrow>
        if w = f1_1 then c0 else if w = f2_2 then c1
        else if w = f3_3 then c2 else if w = f4_4 then c3 else w)"

definition is_sentinel :: "u32 \<Rightarrow> bool" where
  "is_sentinel w = (w = f1_1 \<or> w = f2_2 \<or> w = f3_3 \<or> w = f4_4)"

text \<open>
  Only the literal operand words of \<^verbatim>\<open>OpConstant\<close> instructions change, a sentinel into
  its colour channel; the length and every other word stay.
\<close>

definition patched_blob :: "spv \<Rightarrow> colour \<Rightarrow> u32 list \<Rightarrow> u32 list" where
  "patched_blob K col spirv =
     map (\<lambda>j. if j \<in> set (constant_sites K spirv 5) then replace_sentinel col (spirv ! j)
               else spirv ! j) [0..<length spirv]"

text \<open>One logged error per \<^verbatim>\<open>OpConstant\<close> whose literal is no sentinel.\<close>

definition unexpected_constants :: "spv \<Rightarrow> u32 list \<Rightarrow> nat \<Rightarrow> log_entry list" where
  "unexpected_constants K spirv it =
     map (\<lambda>j. ErrUnexpectedConstant) (filter (\<lambda>j. \<not> is_sentinel (spirv ! j)) (constant_sites K spirv it))"

text \<open>
  A blob is a well-formed instruction stream when every instruction has a non-zero word
  count and ends inside the blob, and an \<^verbatim>\<open>OpConstant\<close> has at least the four words up to
  its literal.
\<close>

definition wf_from :: "spv \<Rightarrow> u32 list \<Rightarrow> nat \<Rightarrow> bool" where
  "wf_from K spirv it =
     list_all (\<lambda>i. WordCount K (spirv ! i) \<noteq> 0 \<and>
                    i + unat (WordCount K (spirv ! i)) \<le> length spirv \<and>
                    (opcode K (spirv ! i) = OpConstant K \<longrightarrow> 4 \<le> unat (WordCount K (spirv ! i))))
       (instructions K spirv it)"

text \<open>
  An example blob: the five header words, a four-word instruction of opcode 21, the
  constants \<^verbatim>\<open>1.1f\<close>, \<^verbatim>\<open>3.3f\<close> and a constant 7 that is no sentinel, and a one-word
  instruction of opcode 56.
\<close>

definition ex_blob :: "u32 list" where
  "ex_blob = [0x07230203, 0x00010000, 0, 20, 0,
              0x00040015, 1, 32, 0,
              0x0004002b, 2, 3, f1_1,
              0x0004002b, 2, 4, f3_3,
              0x0004002b, 1, 5, 7,
              0x00010038]"

definition ex_col :: colour where
  "ex_col = (0x3f800000, 0, 0x3f000000, 0x3f800000)"

section \<open>RenderOverlay\<close>

text \<open>
  The replay state \<^verbatim>\<open>WrappedVulkan::PartialReplayData::StateVector\<close>: the fields that
  \<^verbatim>\<open>RenderOverlay\<close> assigns. The record is extensible, and everything below is stated
  for any extension, which stands for the fields the function does not assign (views,
  render area, bound buffers and so on). A \<^verbatim>\<open>float\<close> is kept as its bit pattern.
\<close>

record VkRect2D =
  offset_x :: u32
  offset_y :: u32
  extent_width :: u32
  extent_height :: u32

record StateVector =
  graphics_pipeline :: ResourceId
  renderPass :: ResourceId
  subpass :: u32
  framebuffer :: ResourceId
  scissors :: "VkRect2D list"
  lineWidth :: u32

datatype obj_kind =
  KImage | KImageView | KDeviceMemory | KRenderPass | KFramebuffer | KPipeline | KShaderModule | KShader

text \<open>
  Modelled from the spec: the driver \<^verbatim>\<open>WrappedVulkan\<close> is an external collaborator,
  declared outside the embedded files. It holds the shared replay state, the flag
  \<^verbatim>\<open>m_PartialReplayData.renderPassActive\<close>, the objects that exist on the device (by kind
  and handle) and further internals \<open>'r\<close> (command buffers, queues, creation info).
\<close>

record ('s, 'r) WrappedVulkan =
  state :: "'s StateVector_scheme"
  renderPassActive :: bool
  objects :: "(obj_kind \<times> VkHandle) set"
  internals :: 'r

text \<open>Calls that only record into a command buffer or reach the device.\<close>

datatype vk_call =
    BeginCommandBuffer VkHandle
  | EndCommandBuffer VkHandle
  | CmdClearColorImage VkHandle VkHandle colour
  | CmdPipelineBarrier VkHandle VkHandle
  | BindImageMemory VkHandle VkHandle
  | SetImageLayout VkHandle

text \<open>
  Modelled from the spec: what the driver interface answers. A device call changes the
  internals and reports whether its \<^verbatim>\<open>VkResult\<close> is \<^verbatim>\<open>VK_SUCCESS\<close>; creating an object
  also yields the new handle; \<^verbatim>\<open>ReplayLog\<close>, \<^verbatim>\<open>SubmitCmds\<close> and \<^verbatim>\<open>FlushQ\<close> may read and
  change the replay state and the internals in any way, but create and destroy none of
  the tracked objects.
\<close>

record ('s, 'r) driver_iface =
  GetNextCmd :: "'r \<Rightarrow> VkHandle \<times> 'r"
  device_call :: "vk_call \<Rightarrow> 'r \<Rightarrow> bool \<times> 'r"
  create_object :: "obj_kind \<Rightarrow> 'r \<Rightarrow> bool \<times> VkHandle \<times> 'r"
  destroy_object :: "obj_kind \<Rightarrow> VkHandle \<Rightarrow> 'r \<Rightarrow> 'r"
  image_memory_size :: "VkHandle \<Rightarrow> 'r \<Rightarrow> bool \<times> u64"
  ReplayLog :: "u32 \<Rightarrow> u32 \<Rightarrow> 's StateVector_scheme \<times> 'r \<Rightarrow> 's StateVector_scheme \<times> 'r"
  SubmitCmds :: "'s StateVector_scheme \<times> 'r \<Rightarrow> 's StateVector_scheme \<times> 'r"
  FlushQ :: "'s StateVector_scheme \<times> 'r \<Rightarrow> 's StateVector_scheme \<times> 'r"
  ResID :: "VkHandle \<Rightarrow> ResourceId"
  fixedcolfs_spv :: "u32 list"

text \<open>A device call whose result is asserted, one whose result is not looked at.\<close>

definition vk_checked ::
    "('s, 'r) driver_iface \<Rightarrow> vk_call \<Rightarrow> ('s, 'r) WrappedVulkan \<Rightarrow> fault + ('s, 'r) WrappedVulkan" where
  "vk_checked E c d =
     (case device_call E c (internals d) of
        (ok, r) \<Rightarrow> RDCASSERT ok ''vkr == VK_SUCCESS'' (Inr (d\<lparr>internals := r\<rparr>)))"

definition vk_unchecked ::
    "('s, 'r) driver_iface \<Rightarrow> vk_call \<Rightarrow> ('s, 'r) WrappedVulkan \<Rightarrow> ('s, 'r) WrappedVulkan" where
  "vk_unchecked E c d = d\<lparr>internals := snd (device_call E c (internals d))\<rparr>"

definition vkCreate ::
    "('s, 'r) driver_iface \<Rightarrow> obj_kind \<Rightarrow> ('s, 'r) WrappedVulkan \<Rightarrow>
     fault + (VkHandle \<times> ('s, 'r) WrappedVulkan)" where
  "vkCreate E k d =
     (case create_object E k (internals d) of
        (ok, h, r) \<Rightarrow>
          RDCASSERT ok ''vkr == VK_SUCCESS''
            (Inr (h, d\<lparr>objects := insert (k, h) (objects d), internals := r\<rparr>)))"

definition vkDestroy ::
    "('s, 'r) driver_iface \<Rightarrow> obj_kind \<Rightarrow> VkHandle \<Rightarrow> ('s, 'r) WrappedVulkan \<Rightarrow> ('s, 'r) WrappedVulkan" where
  "vkDestroy E k h d =
     d\<lparr>objects := objects d - {(k, h)}, internals := destroy_object E k h (internals d)\<rparr>"

definition next_cmd ::
    "('s, 'r) driver_iface \<Rightarrow> ('s, 'r) WrappedVulkan \<Rightarrow> VkHandle \<times> ('s, 'r) WrappedVulkan" where
  "next_cmd E d = (case GetNextCmd E (internals d) of (c, r) \<Rightarrow> (c, d\<lparr>internals := r\<rparr>))"

definition replay_call ::
    "('s StateVector_scheme \<times> 'r \<Rightarrow> 's StateVector_scheme \<times> 'r) \<Rightarrow>
     ('s, 'r) WrappedVulkan \<Rightarrow> ('s, 'r) WrappedVulkan" where
  "replay_call f d = (case f (state d, internals d) of (s, r) \<Rightarrow> d\<lparr>state := s, internals := r\<rparr>)"

text \<open>The members of \<^verbatim>\<open>VulkanDebugManager\<close> that \<^verbatim>\<open>RenderOverlay\<close> uses.\<close>

record VulkanDebugManager =
  m_OverlayImage :: VkHandle
  m_OverlayImageView :: VkHandle
  m_OverlayNoDepthRP :: VkHandle
  m_OverlayNoDepthFB :: VkHandle
  m_OverlayImageMem :: VkHandle
  m_OverlayMemSize :: u64
  m_OverlayDim :: "u32 \<times> u32"

text \<open>
  \<^verbatim>\<open>PatchFixedColShader(mod, shad, col)\<close> in full: the patched words go to
  \<^verbatim>\<open>vkCreateShaderModule\<close>, the module to \<^verbatim>\<open>vkCreateShader\<close>. The result is the module,
  the shader, the driver and the log.
\<close>

definition PatchFixedColShader ::
    "spv \<Rightarrow> ('s, 'r) driver_iface \<Rightarrow> colour \<Rightarrow> ('s, 'r) WrappedVulkan \<times> log_entry list \<Rightarrow>
     fault + (VkHandle \<times> VkHandle \<times> ('s, 'r) WrappedVulkan \<times> log_entry list)" where
  "PatchFixedColShader K E col dl =
     (case dl of (d, lg) \<Rightarrow>
        then_do (PatchFixedColShader_spirv K (fixedcolfs_spv E) col lg) (\<lambda>(spirv, lg').
        then_do (vkCreate E KShaderModule d) (\<lambda>(module, d1).
        then_do (vkCreate E KShader d1) (\<lambda>(shad, d2).
        Inr (module, shad, d2, lg')))))"

datatype TextureDisplayOverlay =
    eTexOverlay_None | eTexOverlay_Drawcall | eTexOverlay_Wireframe
  | eTexOverlay_Depth | eTexOverlay_Stencil | eTexOverlay_BackfaceCull
  | eTexOverlay_ViewportScissor | eTexOverlay_NaN | eTexOverlay_Clipping

text \<open>
  The head of \<^verbatim>\<open>RenderOverlay\<close>: the overlay image is freed when its size differs from
  \<open>extent\<close> (the extent of the texture \<^verbatim>\<open>texid\<close>) and is created, with its memory, view,
  render pass and framebuffer, when there is none. The creation descriptions are local
  values handed to the driver and are not modelled.
\<close>

definition free_overlay_image ::
    "('s, 'r) driver_iface \<Rightarrow> u32 \<times> u32 \<Rightarrow> VulkanDebugManager \<times> ('s, 'r) WrappedVulkan \<Rightarrow>
     VulkanDebugManager \<times> ('s, 'r) WrappedVulkan" where
  "free_overlay_image E extent md =
     (case md of (m, d) \<Rightarrow>
        if m_OverlayImage m \<noteq> VK_NULL_HANDLE \<and>
           (fst extent \<noteq> fst (m_OverlayDim m) \<or> snd extent \<noteq> snd (m_OverlayDim m))
        then
          (let d1 = vkDestroy E KRenderPass (m_OverlayNoDepthRP m) d;
               d2 = vkDestroy E KFramebuffer (m_OverlayNoDepthFB m) d1;
               d3 = vkDestroy E KImageView (m_OverlayImageView m) d2;
               d4 = vkDestroy E KImage (m_OverlayImage m) d3
           in (m\<lparr>m_OverlayImage := VK_NULL_HANDLE, m_OverlayImageView := VK_NULL_HANDLE,
                  m_OverlayNoDepthRP := VK_NULL_HANDLE, m_OverlayNoDepthFB := VK_NULL_HANDLE\<rparr>, d4))
        else (m, d))"

definition alloc_overlay_memory ::
    "('s, 'r) driver_iface \<Rightarrow> u64 \<Rightarrow> VulkanDebugManager \<times> ('s, 'r) WrappedVulkan \<Rightarrow>
     fault + (VulkanDebugManager \<times> ('s, 'r) WrappedVulkan)" where
  "alloc_overlay_memory E mrq_size md =
     (case md of (m, d) \<Rightarrow>
        if m_OverlayImageMem m = VK_NULL_HANDLE \<or> mrq_size > m_OverlayMemSize m
        then
          (let d1 = (if m_OverlayImageMem m \<noteq> VK_NULL_HANDLE
                     then vkDestroy E KDeviceMemory (m_OverlayImageMem m) d else d)
           in then_do (vkCreate E KDeviceMemory d1) (\<lambda>(mem, d2).
              Inr (m\<lparr>m_OverlayImageMem := mem, m_OverlayMemSize := mrq_size\<rparr>, d2)))
        else Inr (m, d))"

definition create_overlay_image ::
    "('s, 'r) driver_iface \<Rightarrow> VkHandle \<Rightarrow> u32 \<times> u32 \<Rightarrow>
     VulkanDebugManager \<times> ('s, 'r) WrappedVulkan \<Rightarrow>
     fault + (VulkanDebugManager \<times> ('s, 'r) WrappedVulkan)" where
  "create_overlay_image E cmd extent md =
     (case md of (m, d) \<Rightarrow>
        if m_OverlayImage m = VK_NULL_HANDLE
        then
          then_do (vkCreate E KImage d) (\<lambda>(image, d1).
            (case image_memory_size E image (internals d1) of (ok, mrq_size) \<Rightarrow>
               RDCASSERT ok ''vkr == VK_SUCCESS''
                 (then_do (alloc_overlay_memory E mrq_size
                             (m\<lparr>m_OverlayDim := extent, m_OverlayImage := image\<rparr>, d1)) (\<lambda>(m3, d2).
                  then_do (vk_checked E (BindImageMemory image (m_OverlayImageMem m3)) d2) (\<lambda>d3.
                  then_do (vkCreate E KImageView d3) (\<lambda>(view, d4).
                  then_do (vkCreate E KRenderPass
                             (vk_unchecked E (CmdPipelineBarrier cmd image)
                                (vk_unchecked E (SetImageLayout image) d4))) (\<lambda>(rp, d7).
                  then_do (vkCreate E KFramebuffer d7) (\<lambda>(fb, d8).
                  Inr (m3\<lparr>m_OverlayImageView := view, m_OverlayNoDepthRP := rp,
                          m_OverlayNoDepthFB := fb\<rparr>, d8)))))))))
        else Inr (m, d))"

text \<open>
  The assignments to the shared replay state before the replayed draw. The loop over the
  dynamic scissors assigns \<^verbatim>\<open>offset.x\<close> twice and never \<^verbatim>\<open>offset.y\<close>, as the source does.
\<close>

definition max_scissor :: "VkRect2D \<Rightarrow> VkRect2D" where
  "max_scissor sc = sc\<lparr>offset_x := 0, offset_x := 0, extent_width := 4096, extent_height := 4096\<rparr>"

definition modify_state ::
    "('s, 'r) driver_iface \<Rightarrow> VulkanDebugManager \<Rightarrow> VkHandle \<Rightarrow> 's StateVector_scheme \<Rightarrow>
     's StateVector_scheme" where
  "modify_state E m pipe s =
     s\<lparr>renderPass := ResID E (m_OverlayNoDepthRP m), subpass := 0,
       framebuffer := ResID E (m_OverlayNoDepthFB m), graphics_pipeline := ResID E pipe,
       scissors := map max_scissor (scissors s)\<rparr>"

definition f_one :: u32 where "f_one = 0x3f800000"

text \<open>
  The branch
  \<^verbatim>\<open>overlay == eTexOverlay_Drawcall || overlay == eTexOverlay_Wireframe\<close>. The pipeline
  description built by \<^verbatim>\<open>MakeGraphicsPipelineInfo\<close> and edited afterwards lives in local
  and function-static storage and is only handed to \<^verbatim>\<open>vkCreateGraphicsPipelines\<close>; it is
  not modelled. The result is the current command buffer, the driver and the log.
\<close>

definition overlay_drawcall ::
    "spv \<Rightarrow> ('s, 'r) driver_iface \<Rightarrow> VulkanDebugManager \<Rightarrow> TextureDisplayOverlay \<Rightarrow> u32 \<Rightarrow> u32 \<Rightarrow>
     VkHandle \<Rightarrow> ('s, 'r) WrappedVulkan \<times> log_entry list \<Rightarrow>
     fault + (VkHandle \<times> ('s, 'r) WrappedVulkan \<times> log_entry list)" where
  "overlay_drawcall K E m overlay frameID eventID cmd dl =
     (case dl of (d, lg) \<Rightarrow>
        let highlightCol = (if overlay = eTexOverlay_Wireframe
                            then (0x3f48c8c9, f_one, 0, 0)
                            else (0x3f4ccccd, 0x3dcccccd, 0x3f4ccccd, 0));
            d1 = vk_unchecked E (CmdClearColorImage cmd (m_OverlayImage m) highlightCol) d;
            highlightCol' = (case highlightCol of (r, g, b, a) \<Rightarrow> (r, g, b, f_one));
            prevstate = state d1
        in then_do (PatchFixedColShader K E highlightCol' (d1, lg)) (\<lambda>(module, shad, d2, lg').
           then_do (vk_checked E (EndCommandBuffer cmd) d2) (\<lambda>d3.
           then_do (vkCreate E KPipeline d3) (\<lambda>(pipe, d4).
           let s1 = modify_state E m pipe (state d4);
               s2 = (if overlay = eTexOverlay_Wireframe then s1\<lparr>lineWidth := f_one\<rparr> else s1);
               d5 = d4\<lparr>state := s2\<rparr>;
               d6 = replay_call (ReplayLog E frameID eventID) d5;
               d7 = replay_call (SubmitCmds E) d6;
               d8 = replay_call (FlushQ E) d7
           in case next_cmd E d8 of (cmd', d9) \<Rightarrow>
              then_do (vk_checked E (BeginCommandBuffer cmd') d9) (\<lambda>d10.
              let d11 = d10\<lparr>state := prevstate\<rparr>;
                  d12 = vkDestroy E KPipeline pipe d11;
                  d13 = vkDestroy E KShaderModule module d12;
                  d14 = vkDestroy E KShader shad d13
              in Inr (cmd', d14, lg'))))))"

text \<open>
  The branch \<^verbatim>\<open>overlay == eTexOverlay_BackfaceCull\<close>: two shaders (red, then green), two
  pipelines, two replays of the draw.
\<close>

definition overlay_backface ::
    "spv \<Rightarrow> ('s, 'r) driver_iface \<Rightarrow> VulkanDebugManager \<Rightarrow> u32 \<Rightarrow> u32 \<Rightarrow>
     VkHandle \<Rightarrow> ('s, 'r) WrappedVulkan \<times> log_entry list \<Rightarrow>
     fault + (VkHandle \<times> ('s, 'r) WrappedVulkan \<times> log_entry list)" where
  "overlay_backface K E m frameID eventID cmd dl =
     (case dl of (d, lg) \<Rightarrow>
        let d1 = vk_unchecked E (CmdClearColorImage cmd (m_OverlayImage m) (0, 0, 0, 0)) d;
            prevstate = state d1
        in then_do (PatchFixedColShader K E (f_one, 0, 0, f_one) (d1, lg)) (\<lambda>(mod0, shad0, d2, lg1).
           then_do (PatchFixedColShader K E (0, f_one, 0, f_one) (d2, lg1)) (\<lambda>(mod1, shad1, d3, lg2).
           then_do (vk_checked E (EndCommandBuffer cmd) d3) (\<lambda>d4.
           then_do (vkCreate E KPipeline d4) (\<lambda>(pipe0, d5).
           then_do (vkCreate E KPipeline d5) (\<lambda>(pipe1, d6).
           let d7 = d6\<lparr>state := modify_state E m pipe0 (state d6)\<rparr>;
               d8 = replay_call (ReplayLog E frameID eventID) d7;
               d9 = d8\<lparr>state := (state d8)\<lparr>graphics_pipeline := ResID E pipe1\<rparr>\<rparr>;
               d10 = replay_call (ReplayLog E frameID eventID) d9;
               d11 = replay_call (SubmitCmds E) d10;
               d12 = replay_call (FlushQ E) d11
           in case next_cmd E d12 of (cmd', d13) \<Rightarrow>
              then_do (vk_checked E (BeginCommandBuffer cmd') d13) (\<lambda>d14.
              let d15 = d14\<lparr>state := prevstate\<rparr>;
                  d16 = vkDestroy E KShader shad0
                          (vkDestroy E KShaderModule mod0 (vkDestroy E KPipeline pipe0 d15));
                  d17 = vkDestroy E KShader shad1
                          (vkDestroy E KShaderModule mod1 (vkDestroy E KPipeline pipe1 d16))
              in Inr (cmd', d17, lg2))))))))"

text \<open>
  \<^verbatim>\<open>RenderOverlay\<close>. The bodies of the viewport/scissor and the depth/stencil branch are
  not modelled: \<open>other\<close> stands for them. The result is the returned id of the overlay
  image, the debug manager, the driver and the log.
\<close>

definition RenderOverlay ::
    "spv \<Rightarrow> ('s, 'r) driver_iface \<Rightarrow>
     (TextureDisplayOverlay \<Rightarrow> VkHandle \<Rightarrow> VulkanDebugManager \<Rightarrow>
        ('s, 'r) WrappedVulkan \<times> log_entry list \<Rightarrow>
        fault + (VkHandle \<times> ('s, 'r) WrappedVulkan \<times> log_entry list)) \<Rightarrow>
     u32 \<times> u32 \<Rightarrow> TextureDisplayOverlay \<Rightarrow> u32 \<Rightarrow> u32 \<Rightarrow>
     VulkanDebugManager \<times> ('s, 'r) WrappedVulkan \<times> log_entry list \<Rightarrow>
     fault + (ResourceId \<times> VulkanDebugManager \<times> ('s, 'r) WrappedVulkan \<times> log_entry list)" where
  "RenderOverlay K E other extent overlay frameID eventID mdl =
     (case mdl of (m, d, lg) \<Rightarrow>
        case next_cmd E d of (cmd, d1) \<Rightarrow>
        then_do (vk_checked E (BeginCommandBuffer cmd) d1) (\<lambda>d2.
        then_do (create_overlay_image E cmd extent (free_overlay_image E extent (m, d2))) (\<lambda>(m', d3).
        then_do
          (if \<not> renderPassActive d3
           then Inr (cmd, vk_unchecked E (CmdClearColorImage cmd (m_OverlayImage m') (0, 0, 0, 0)) d3, lg)
           else if overlay = eTexOverlay_NaN \<or> overlay = eTexOverlay_Clipping
           then Inr (cmd, vk_unchecked E (CmdClearColorImage cmd (m_OverlayImage m') (0, 0, 0, 0)) d3, lg)
           else if overlay = eTexOverlay_Drawcall \<or> overlay = eTexOverlay_Wireframe
           then overlay_drawcall K E m' overlay frameID eventID cmd (d3, lg)
           else if overlay = eTexOverlay_ViewportScissor
           then other overlay cmd m' (d3, lg)
           else if overlay = eTexOverlay_BackfaceCull
           then overlay_backface K E m' frameID eventID cmd (d3, lg)
           else if overlay = eTexOverlay_Depth \<or> overlay = eTexOverlay_Stencil
           then other overlay cmd m' (d3, lg)
           else Inr (cmd, d3, lg))
          (\<lambda>(cmd', d4, lg').
        then_do (vk_checked E (EndCommandBuffer cmd') d4) (\<lambda>d5.
        Inr (ResID E (m_OverlayImage m'), m', d5, lg'))))))"

text \<open>The pipelines, shader modules and shaders that exist on the device.\<close>

definition ephemeral_kinds :: "obj_kind set" where
  "ephemeral_kinds = {KPipeline, KShaderModule, KShader}"

definition ephemeral :: "('s, 'r) WrappedVulkan \<Rightarrow> (obj_kind \<times> VkHandle) set" where
  "ephemeral d = {(k, h) \<in> objects d. k \<in> ephemeral_kinds}"

text \<open>
  \<open>unchanged d d'\<close>: the driver \<open>d'\<close> has the replay state, the render pass flag and the
  pipelines, shader modules and shaders of \<open>d\<close>.
\<close>

definition unchanged :: "('s, 'r) WrappedVulkan \<Rightarrow> ('s, 'r) WrappedVulkan \<Rightarrow> bool" where
  "unchanged d d' =
     (state d' = state d \<and> ephemeral d' = ephemeral d \<and> renderPassActive d' = renderPassActive d)"

text \<open>
  An example driver: the internals are a counter from which command buffers and handles
  are numbered, every call succeeds, replaying the draw clears the scissors and
  overwrites the bound pipeline, and the embedded shader is a bare header.
\<close>

definition ex_iface :: "(unit, nat) driver_iface" where
  "ex_iface = \<lparr> GetNextCmd = (\<lambda>r. (of_nat r, Suc r)),
                 device_call = (\<lambda>c r. (True, r)),
                 create_object = (\<lambda>k r. (True, of_nat r, Suc r)),
                 destroy_object = (\<lambda>k h r. r),
                 image_memory_size = (\<lambda>h r. (True, 4096)),
                 ReplayLog = (\<lambda>f e (s, r). (s\<lparr>graphics_pipeline := 0, scissors := []\<rparr>, Suc r)),
                 SubmitCmds = (\<lambda>(s, r). (s, r)),
                 FlushQ = (\<lambda>(s, r). (s, r)),
                 ResID = (\<lambda>h. h + 1000),
                 fixedcolfs_spv = [0x07230203, 0x00010000, 0, 20, 0] \<rparr>"

definition ex_state :: StateVector where
  "ex_state = \<lparr> graphics_pipeline = 77, renderPass = 78, subpass = 1, framebuffer = 79,
                 scissors = [\<lparr>offset_x = 3, offset_y = 4, extent_width = 20, extent_height = 20\<rparr>],
                 lineWidth = 0x40000000 \<rparr>"

definition ex_driver :: "(unit, nat) WrappedVulkan" where
  "ex_driver = \<lparr> state = ex_state, renderPassActive = True,
                  objects = {(KPipeline, 500)}, internals = 1 \<rparr>"

definition ex_driver_after :: "nat \<Rightarrow> (unit, nat) WrappedVulkan" where
  "ex_driver_after n = \<lparr> state = ex_state, renderPassActive = True,
     objects = {(KFramebuffer, 6), (KRenderPass, 5), (KImageView, 4), (KDeviceMemory, 3),
                (KImage, 2), (KPipeline, 500)},
     internals = n \<rparr>"

definition ex_manager :: VulkanDebugManager where
  "ex_manager = \<lparr> m_OverlayImage = VK_NULL_HANDLE, m_OverlayImageView = VK_NULL_HANDLE,
                   m_OverlayNoDepthRP = VK_NULL_HANDLE, m_OverlayNoDepthFB = VK_NULL_HANDLE,
                   m_OverlayImageMem = VK_NULL_HANDLE, m_OverlayMemSize = 0, m_OverlayDim = (0, 0) \<rparr>"

definition ex_other ::
    "TextureDisplayOverlay \<Rightarrow> VkHandle \<Rightarrow> VulkanDebugManager \<Rightarrow>
     (unit, nat) WrappedVulkan \<times> log_entry list \<Rightarrow>
     fault + (VkHandle \<times> (unit, nat) WrappedVulkan \<times> log_entry list)" where
  "ex_other ov cmd m dl = (case dl of (d, lg) \<Rightarrow> Inr (cmd, d, lg))"

section \<open>AddOutputDumping\<close>

text \<open>
  Of the \<^verbatim>\<open>ShaderReflection\<close> argument the function reads the output signature: per
  output its component type and component count.
\<close>

datatype FormatComponentType =
    eCompType_None | eCompType_Float | eCompType_UNorm | eCompType_SNorm | eCompType_UInt
  | eCompType_SInt | eCompType_UScaled | eCompType_SScaled | eCompType_Depth | eCompType_Double

record SigParameter =
  sig_compType :: FormatComponentType
  sig_compCount :: u32

record outputIDs =
  constID :: u32
  basetypeID :: u32
  uniformPtrID :: u32

text \<open>
  The instructions that the function inserts are also kept in the order of insertion:
  \<open>NewDecl i ws\<close> for a type, constant or variable instruction \<open>ws\<close> inserted for the
  identifier \<open>i\<close> taken from \<^verbatim>\<open>idBound\<close>, \<open>NewDecoration ws\<close> for a decoration. This
  record has no counterpart in the source; no step of the model reads it.
\<close>

datatype new_instr = NewDecl u32 "u32 list" | NewDecoration "u32 list"

text \<open>
  The local variables: those of the first pass, and (in the extension) the module, the
  running id bound and the record of insertions.
\<close>

record found =
  vertidxID :: u32
  sint32ID :: u32
  sint32PtrInID :: u32
  uint32ID :: u32
  halfID :: u32
  floatID :: u32
  doubleID :: u32
  outs :: "outputIDs list"
  maxDescSetBind :: u32
  decorateOffset :: nat
  typeVarOffset :: nat
  messages :: "log_entry list"

record locals = found +
  modSpirv :: "u32 list"
  idBound :: u32
  inserted :: "new_instr list"

text \<open>
  Reads. \<^verbatim>\<open>spirv\<close> is a raw pointer into the module and \<^verbatim>\<open>outs\<close> a C array of 100
  elements: an index outside is undefined behaviour and a fault of the model.
\<close>

definition rd :: "u32 list \<Rightarrow> nat \<Rightarrow> fault + u32" where
  "rd spirv i = (if i < length spirv then Inr (spirv ! i) else Inl (OutOfRange ''spirv''))"

definition get_out :: "'a found_scheme \<Rightarrow> nat \<Rightarrow> fault + outputIDs" where
  "get_out st i = (if i < length (outs st) then Inr (outs st ! i) else Inl (OutOfRange ''outs''))"

definition upd_out ::
    "nat \<Rightarrow> (outputIDs \<Rightarrow> outputIDs) \<Rightarrow> 'a found_scheme \<Rightarrow> fault + 'a found_scheme" where
  "upd_out i f st =
     (if i < length (outs st) then Inr (st\<lparr>outs := (outs st)[i := f (outs st ! i)]\<rparr>)
      else Inl (OutOfRange ''outs''))"

text \<open>
  Conditions with reads in them: \<open>c_and\<close> is \<^verbatim>\<open>&&\<close>, which does not evaluate its right
  operand when the left one is false; \<open>word_is spirv i v\<close> is \<^verbatim>\<open>spirv[i] == v\<close>; \<open>when_c\<close>
  is an \<^verbatim>\<open>if\<close> without \<^verbatim>\<open>else\<close>.
\<close>

definition c_and :: "fault + bool \<Rightarrow> fault + bool \<Rightarrow> fault + bool" where
  "c_and a b = (case a of Inl e \<Rightarrow> Inl e | Inr t \<Rightarrow> if t then b else Inr False)"

definition word_is :: "u32 list \<Rightarrow> nat \<Rightarrow> u32 \<Rightarrow> fault + bool" where
  "word_is spirv i v = then_do (rd spirv i) (\<lambda>w. Inr (w = v))"

definition when_c :: "fault + bool \<Rightarrow> ('s \<Rightarrow> fault + 's) \<Rightarrow> 's \<Rightarrow> fault + 's" where
  "when_c c body st = (case c of Inl e \<Rightarrow> Inl e | Inr t \<Rightarrow> if t then body st else Inr st)"

definition warn :: "log_entry \<Rightarrow> 'a found_scheme \<Rightarrow> 'a found_scheme" where
  "warn e st = st\<lparr>messages := messages st @ [e]\<rparr>"

text \<open>
  The body shared by the seven searches for a known identifier:
  \<^verbatim>\<open>if(X != 0) RDCWARN(..., spirv[it+1], X); X = spirv[it+1];\<close>
\<close>

definition note_id ::
    "u32 list \<Rightarrow> nat \<Rightarrow> ('a found_scheme \<Rightarrow> u32) \<Rightarrow> (u32 \<Rightarrow> 'a found_scheme \<Rightarrow> 'a found_scheme) \<Rightarrow>
     (u32 \<Rightarrow> u32 \<Rightarrow> log_entry) \<Rightarrow> 'a found_scheme \<Rightarrow> fault + 'a found_scheme" where
  "note_id spirv it current assign msg st =
     then_do (rd spirv (it + 1)) (\<lambda>w.
       Inr (assign w (if current st \<noteq> 0 then warn (msg w (current st)) st else st)))"

text \<open>
  The base type that an output's vector must be made of; a component type other than
  the four known ones logs an error and leaves 0.
\<close>

definition base_type_id :: "FormatComponentType \<Rightarrow> 'a found_scheme \<Rightarrow> u32 \<times> 'a found_scheme" where
  "base_type_id t st =
     (if t = eCompType_UInt then (uint32ID st, st)
      else if t = eCompType_SInt then (sint32ID st, st)
      else if t = eCompType_Float then (floatID st, st)
      else if t = eCompType_Double then (doubleID st, st)
      else (0, warn ErrUnexpectedComponentType st))"

text \<open>The body of \<^verbatim>\<open>for(int i=0; i < numOutputs; i++)\<close> inside the first pass.\<close>

definition scan_output ::
    "spv \<Rightarrow> u32 list \<Rightarrow> nat \<Rightarrow> nat \<Rightarrow> SigParameter \<Rightarrow> 'a found_scheme \<Rightarrow> fault + 'a found_scheme" where
  "scan_output K spirv it i p st0 =
     (let op = opcode K (spirv ! it) in
      then_do
        (when_c (c_and (Inr (op = OpConstant K))
                   (c_and (word_is spirv (it + 1) (uint32ID st0)) (word_is spirv (it + 3) (of_nat i))))
           (\<lambda>st. then_do (get_out st i) (\<lambda>o_i.
                  then_do (rd spirv (it + 2)) (\<lambda>w.
                  upd_out i (\<lambda>x. x\<lparr>constID := w\<rparr>)
                    (if constID o_i \<noteq> 0 then warn (WarnIdenticalConstant w (constID o_i)) st else st))))
           st0)
        (\<lambda>st1.
      then_do
        (when_c (Inr (sig_compCount p > 1 \<and> op = OpTypeVector K))
           (\<lambda>st. case base_type_id (sig_compType p) st of (baseID, st') \<Rightarrow>
              when_c (c_and (Inr (baseID \<noteq> 0))
                        (c_and (word_is spirv (it + 2) baseID) (word_is spirv (it + 3) (sig_compCount p))))
                (\<lambda>st. then_do (get_out st i) (\<lambda>o_i.
                       then_do (rd spirv (it + 1)) (\<lambda>w.
                       upd_out i (\<lambda>x. x\<lparr>basetypeID := w\<rparr>)
                         (if basetypeID o_i \<noteq> 0 then warn (WarnIdenticalType w (basetypeID o_i)) st
                          else st))))
                st')
           st1)
        (\<lambda>st2.
      then_do (get_out st2 i) (\<lambda>o_i.
        when_c (c_and (Inr (basetypeID o_i \<noteq> 0))
                  (c_and (Inr (op = OpTypePointer K))
                     (c_and (word_is spirv (it + 2) (StorageClassUniform K))
                        (word_is spirv (it + 3) (basetypeID o_i)))))
          (\<lambda>st. then_do (get_out st i) (\<lambda>o_i.
                 then_do (rd spirv (it + 1)) (\<lambda>w.
                 upd_out i (\<lambda>x. x\<lparr>uniformPtrID := w\<rparr>)
                   (if uniformPtrID o_i \<noteq> 0 then warn (WarnIdenticalType w (uniformPtrID o_i)) st
                    else st))))
          st2))))"

text \<open>A \<^verbatim>\<open>for\<close> loop over the given indices, left at the first fault.\<close>

fun for_each :: "nat list \<Rightarrow> (nat \<Rightarrow> 's \<Rightarrow> fault + 's) \<Rightarrow> 's \<Rightarrow> fault + 's" where
  "for_each [] body st = Inr st"
| "for_each (i # is) body st =
     (case body i st of Inl e \<Rightarrow> Inl e | Inr st' \<Rightarrow> for_each is body st')"

text \<open>
  One iteration of the first pass up to, and without, the test for \<^verbatim>\<open>OpFunction\<close>.
  \<open>sig\<close> is \<^verbatim>\<open>refl.OutputSig\<close>, whose length is \<^verbatim>\<open>numOutputs\<close>.
\<close>

definition scan_instruction ::
    "spv \<Rightarrow> SigParameter list \<Rightarrow> u32 list \<Rightarrow> nat \<Rightarrow> 'a found_scheme \<Rightarrow> fault + 'a found_scheme" where
  "scan_instruction K sig spirv it st0 =
     (let op = opcode K (spirv ! it) in
      then_do
        (when_c (c_and (Inr (op = OpDecorate K))
                   (c_and (word_is spirv (it + 2) (DecorationBuiltIn K))
                      (word_is spirv (it + 3) (BuiltInVertexId K))))
           (note_id spirv it vertidxID (\<lambda>w s. s\<lparr>vertidxID := w\<rparr>) WarnMultipleVertexIDs) st0)
        (\<lambda>st.
      then_do
        (when_c (c_and (Inr (op = OpTypeInt K))
                   (c_and (word_is spirv (it + 2) 32) (word_is spirv (it + 3) 1)))
           (note_id spirv it sint32ID (\<lambda>w s. s\<lparr>sint32ID := w\<rparr>) WarnIdenticalType) st)
        (\<lambda>st.
      then_do
        (when_c (c_and (Inr (op = OpTypeInt K))
                   (c_and (word_is spirv (it + 2) 32) (word_is spirv (it + 3) 0)))
           (note_id spirv it uint32ID (\<lambda>w s. s\<lparr>uint32ID := w\<rparr>) WarnIdenticalType) st)
        (\<lambda>st.
      then_do
        (when_c (c_and (Inr (op = OpTypeFloat K)) (word_is spirv (it + 2) 16))
           (note_id spirv it halfID (\<lambda>w s. s\<lparr>halfID := w\<rparr>) WarnIdenticalType) st)
        (\<lambda>st.
      then_do
        (when_c (c_and (Inr (op = OpTypeFloat K)) (word_is spirv (it + 2) 32))
           (note_id spirv it floatID (\<lambda>w s. s\<lparr>floatID := w\<rparr>) WarnIdenticalType) st)
        (\<lambda>st.
      then_do
        (when_c (c_and (Inr (op = OpTypeFloat K)) (word_is spirv (it + 2) 64))
           (note_id spirv it doubleID (\<lambda>w s. s\<lparr>doubleID := w\<rparr>) WarnIdenticalType) st)
        (\<lambda>st.
      then_do
        (when_c (c_and (Inr (op = OpTypePointer K))
                   (c_and (word_is spirv (it + 2) (StorageClassInput K))
                      (word_is spirv (it + 3) (sint32ID st))))
           (note_id spirv it sint32PtrInID (\<lambda>w s. s\<lparr>sint32PtrInID := w\<rparr>) WarnIdenticalType) st)
        (\<lambda>st.
      then_do
        (for_each [0..<length sig] (\<lambda>i. scan_output K spirv it i (sig ! i)) st)
        (\<lambda>st.
      then_do
        (when_c (c_and (Inr (op = OpDecorate K)) (word_is spirv (it + 2) (DecorationDescriptorSet K)))
           (\<lambda>s. then_do (rd spirv (it + 3)) (\<lambda>w.
                 Inr (s\<lparr>maxDescSetBind := (if maxDescSetBind s > w then maxDescSetBind s else w)\<rparr>)))
           st)
        (\<lambda>st.
      Inr (if decorateOffset st = 0 \<and> op \<ge> OpTypeVoid K \<and> op \<le> OpTypeForwardPointer K
           then st\<lparr>decorateOffset := it\<rparr> else st)))))))))))"

text \<open>
  The first pass, \<^verbatim>\<open>while(it < spirvLength)\<close>. An \<^verbatim>\<open>OpFunction\<close> sets \<^verbatim>\<open>typeVarOffset\<close> and
  breaks; otherwise \<^verbatim>\<open>it\<close> advances by the word count, and a word count of 0 keeps the
  loop at the same instruction for ever.
\<close>

function scan_loop ::
    "spv \<Rightarrow> SigParameter list \<Rightarrow> u32 list \<Rightarrow> nat \<Rightarrow> 'a found_scheme \<Rightarrow> fault + 'a found_scheme" where
  "scan_loop K sig spirv it st =
     (if it < length spirv
      then
        (case scan_instruction K sig spirv it st of
           Inl e \<Rightarrow> Inl e
         | Inr st' \<Rightarrow>
             if opcode K (spirv ! it) = OpFunction K then Inr (st'\<lparr>typeVarOffset := it\<rparr>)
             else if WordCount K (spirv ! it) = 0 then Inl Diverges
             else scan_loop K sig spirv (it + unat (WordCount K (spirv ! it))) st')
      else Inr st)"
  by pat_completeness auto
termination
proof (relation "measure (\<lambda>(K, sig, spirv, it, st). length spirv - it)", goal_cases)
  case 1
  show ?case by simp
next
  case (2 K sig spirv it st st')
  have "0 < unat (WordCount K (spirv ! it))"
    using 2 by (simp add: unat_gt_0)
  then show ?case using 2(1) by simp
qed

text \<open>
  The loop after the first pass: a scalar output takes the base type itself, and every
  output must have a base type by now.
\<close>

definition scalar_output :: "SigParameter list \<Rightarrow> nat \<Rightarrow> 'a found_scheme \<Rightarrow> fault + 'a found_scheme" where
  "scalar_output sig i st0 =
     then_do
       (if sig_compCount (sig ! i) = 1
        then (case base_type_id (sig_compType (sig ! i)) st0 of (baseID, st') \<Rightarrow>
                if sig_compType (sig ! i) \<in> {eCompType_UInt, eCompType_SInt, eCompType_Float,
                                              eCompType_Double}
                then upd_out i (\<lambda>x. x\<lparr>basetypeID := baseID\<rparr>) st'
                else Inr st')
        else Inr st0)
       (\<lambda>st. then_do (get_out st i) (\<lambda>o_i.
          RDCASSERT (basetypeID o_i \<noteq> 0) ''outs[i].basetypeID != 0'' (Inr st)))"

text \<open>
  \<^verbatim>\<open>modSpirv.insert(modSpirv.begin()+offset, ...)\<close>; an iterator beyond the end is a fault.
\<close>

definition insert_words :: "nat \<Rightarrow> u32 list \<Rightarrow> locals \<Rightarrow> fault + locals" where
  "insert_words off ws st =
     (if off \<le> length (modSpirv st)
      then Inr (st\<lparr>modSpirv := take off (modSpirv st) @ ws @ drop off (modSpirv st)\<rparr>)
      else Inl (OutOfRange ''modSpirv.insert''))"

text \<open>
  "Insert at the end of the types/variables section" and update the offset; the
  instruction is inserted for the identifier \<open>i\<close>.
\<close>

definition insert_decl :: "u32 \<Rightarrow> u32 list \<Rightarrow> locals \<Rightarrow> fault + locals" where
  "insert_decl i ws st =
     then_do (insert_words (typeVarOffset st) ws st) (\<lambda>st'.
       Inr (st'\<lparr>typeVarOffset := typeVarOffset st' + length ws,
                inserted := inserted st' @ [NewDecl i ws]\<rparr>))"

text \<open>
  "Insert at the end of the decorations before the types" and update both offsets;
  \<open>ds\<close> are the decoration instructions inserted together.
\<close>

definition insert_decorations :: "u32 list list \<Rightarrow> locals \<Rightarrow> fault + locals" where
  "insert_decorations ds st =
     then_do (insert_words (decorateOffset st) (concat ds) st) (\<lambda>st'.
       Inr (st'\<lparr>typeVarOffset := typeVarOffset st' + length (concat ds),
                decorateOffset := decorateOffset st' + length (concat ds),
                inserted := inserted st' @ map NewDecoration ds\<rparr>))"

text \<open>\<^verbatim>\<open>idBound++\<close>: the value before, and the state after.\<close>

definition next_id :: "locals \<Rightarrow> u32 \<times> locals" where
  "next_id st = (idBound st, st\<lparr>idBound := idBound st + 1\<rparr>)"

text \<open>The block \<^verbatim>\<open>if(vertidxID == 0)\<close>: declare \<^verbatim>\<open>in int gl_VertexID\<close>.\<close>

definition declare_sint32 :: "spv \<Rightarrow> locals \<Rightarrow> fault + locals" where
  "declare_sint32 K st =
     (if sint32ID st = 0
      then (case next_id st of (i, st1) \<Rightarrow>
              insert_decl i [MakeSPIRVOp K (OpTypeInt K) 4, i, 32, 1] (st1\<lparr>sint32ID := i\<rparr>))
      else Inr st)"

definition declare_sint32PtrIn :: "spv \<Rightarrow> locals \<Rightarrow> fault + locals" where
  "declare_sint32PtrIn K st =
     (if sint32PtrInID st = 0
      then (case next_id st of (i, st1) \<Rightarrow>
              insert_decl i [MakeSPIRVOp K (OpTypePointer K) 4, i, StorageClassInput K, sint32ID st1]
                (st1\<lparr>sint32PtrInID := i\<rparr>))
      else Inr st)"

definition declare_vertidx :: "spv \<Rightarrow> locals \<Rightarrow> fault + locals" where
  "declare_vertidx K st =
     (if vertidxID st = 0
      then
        then_do (declare_sint32 K st) (\<lambda>st1.
        then_do (declare_sint32PtrIn K st1) (\<lambda>st2.
        case next_id st2 of (i, st3) \<Rightarrow>
        then_do (insert_decl i [MakeSPIRVOp K (OpVariable K) 4, sint32PtrInID st3, i, StorageClassInput K]
                   (st3\<lparr>vertidxID := i\<rparr>)) (\<lambda>st4.
        insert_decorations
          [[MakeSPIRVOp K (OpDecorate K) 4, vertidxID st4, DecorationBuiltIn K, BuiltInVertexId K]] st4)))
      else Inr st)"

definition declare_uint32 :: "spv \<Rightarrow> locals \<Rightarrow> fault + locals" where
  "declare_uint32 K st =
     (if uint32ID st = 0
      then (case next_id st of (i, st1) \<Rightarrow>
              insert_decl i [MakeSPIRVOp K (OpTypeInt K) 4, i, 32, 0] (st1\<lparr>uint32ID := i\<rparr>))
      else Inr st)"

text \<open>"Add any constants we're missing": the body for output \<open>i\<close>.\<close>

definition declare_constant :: "spv \<Rightarrow> nat \<Rightarrow> locals \<Rightarrow> fault + locals" where
  "declare_constant K i st =
     then_do (get_out st i) (\<lambda>o_i.
       if constID o_i = 0
       then (case next_id st of (c, st1) \<Rightarrow>
               then_do (upd_out i (\<lambda>x. x\<lparr>constID := c\<rparr>) st1) (\<lambda>st2.
               insert_decl c [MakeSPIRVOp K (OpConstant K) 4, uint32ID st2, c, of_nat i] st2))
       else Inr st)"

text \<open>
  "Add any uniform pointer types we're missing": the body for output \<open>i\<close>, with the inner
  loop that hands the new pointer type to the later outputs of the same base type.
\<close>

definition share_uniform_ptr :: "nat \<Rightarrow> nat \<Rightarrow> locals \<Rightarrow> fault + locals" where
  "share_uniform_ptr i j st =
     then_do (get_out st i) (\<lambda>o_i.
     then_do (get_out st j) (\<lambda>o_j.
       if basetypeID o_i = basetypeID o_j
       then RDCASSERT (uniformPtrID o_j = 0) ''outs[j].uniformPtrID == 0''
              (upd_out j (\<lambda>x. x\<lparr>uniformPtrID := uniformPtrID o_i\<rparr>) st)
       else Inr st))"

definition declare_uniform_ptr :: "spv \<Rightarrow> nat \<Rightarrow> nat \<Rightarrow> locals \<Rightarrow> fault + locals" where
  "declare_uniform_ptr K numOutputs i st =
     then_do (get_out st i) (\<lambda>o_i.
       if uniformPtrID o_i = 0
       then (case next_id st of (p, st1) \<Rightarrow>
               then_do (upd_out i (\<lambda>x. x\<lparr>uniformPtrID := p\<rparr>) st1) (\<lambda>st2.
               then_do (insert_decl p [MakeSPIRVOp K (OpTypePointer K) 4, p, StorageClassUniform K,
                                        basetypeID o_i] st2) (\<lambda>st3.
               for_each [i + 1..<numOutputs] (share_uniform_ptr i) st3)))
       else Inr st)"

text \<open>
  The member decorations of the output structure: per output one \<^verbatim>\<open>OpMemberDecorate\<close>
  with the running \<^verbatim>\<open>memberOffset\<close>, which then grows by element size times component
  count in 32-bit arithmetic. The state is the decorations so far, \<^verbatim>\<open>memberOffset\<close> and
  the log.
\<close>

definition member_decoration ::
    "spv \<Rightarrow> SigParameter list \<Rightarrow> u32 \<Rightarrow> nat \<Rightarrow> u32 list list \<times> u32 \<times> log_entry list \<Rightarrow>
     u32 list list \<times> u32 \<times> log_entry list" where
  "member_decoration K sig vertStructID i acc =
     (case acc of (ds, memberOffset, lg) \<Rightarrow>
        let d = [MakeSPIRVOp K (OpMemberDecorate K) 5, vertStructID, of_nat i, DecorationOffset K,
                 memberOffset];
            t = sig_compType (sig ! i);
            elemSize = (if t = eCompType_Double then 8
                        else if t = eCompType_SInt \<or> t = eCompType_UInt \<or> t = eCompType_Float then 4
                        else 0);
            lg' = (if t = eCompType_Double \<or> t = eCompType_SInt \<or> t = eCompType_UInt
                      \<or> t = eCompType_Float
                   then lg else lg @ [ErrUnexpectedComponentType])
        in (ds @ [d], memberOffset + elemSize * sig_compCount (sig ! i), lg'))"

text \<open>
  The block "now add the structure type etc for our output buffer". The words of
  \<^verbatim>\<open>vertStructOp\<close> after the first two are the base types of the outputs.
\<close>

definition declare_output_buffer :: "spv \<Rightarrow> SigParameter list \<Rightarrow> locals \<Rightarrow> fault + locals" where
  "declare_output_buffer K sig st0 =
     (let numOutputs = length sig in
      case next_id st0 of (vertStructID, st1) \<Rightarrow>
      then_do (for_each [0..<numOutputs]
                 (\<lambda>i ws_st. case ws_st of (ws, st) \<Rightarrow>
                    then_do (get_out st i) (\<lambda>o_i. Inr (ws @ [basetypeID o_i], st)))
                 ([MakeSPIRVOp K (OpTypeStruct K) (of_nat (2 + numOutputs)), vertStructID], st1))
        (\<lambda>(vertStructOp, st2).
      then_do (insert_decl vertStructID vertStructOp st2) (\<lambda>st3.
      case next_id st3 of (runtimeArrayID, st4) \<Rightarrow>
      then_do (insert_decl runtimeArrayID
                 [MakeSPIRVOp K (OpTypeRuntimeArray K) 3, runtimeArrayID, vertStructID] st4) (\<lambda>st5.
      case next_id st5 of (outputStructID, st6) \<Rightarrow>
      then_do (insert_decl outputStructID
                 [MakeSPIRVOp K (OpTypeStruct K) 3, outputStructID, runtimeArrayID] st6) (\<lambda>st7.
      case next_id st7 of (outputStructPtrID, st8) \<Rightarrow>
      then_do (insert_decl outputStructPtrID
                 [MakeSPIRVOp K (OpTypePointer K) 4, outputStructPtrID, StorageClassUniform K,
                  outputStructID] st8) (\<lambda>st9.
      case next_id st9 of (outBufferVarID, st10) \<Rightarrow>
      then_do (insert_decl outBufferVarID
                 [MakeSPIRVOp K (OpVariable K) 4, outputStructPtrID, outBufferVarID,
                  StorageClassUniform K] st10) (\<lambda>st11.
      case fold (member_decoration K sig vertStructID) [0..<numOutputs] ([], 0, messages st11) of
        (ds, memberOffset, lg) \<Rightarrow>
          insert_decorations
            (ds @
             [[MakeSPIRVOp K (OpMemberDecorate K) 5, outputStructID, 0, DecorationOffset K, 0],
              [MakeSPIRVOp K (OpDecorate K) 4, runtimeArrayID, DecorationArrayStride K, memberOffset],
              [MakeSPIRVOp K (OpDecorate K) 3, outputStructID, DecorationBufferBlock K],
              [MakeSPIRVOp K (OpDecorate K) 4, outBufferVarID, DecorationDescriptorSet K,
               maxDescSetBind st11 + 1],
              [MakeSPIRVOp K (OpDecorate K) 4, outBufferVarID, DecorationBinding K, 0]])
            (st11\<lparr>messages := lg\<rparr>))))))))"

text \<open>
  Everything between the first pass and the final write of the id bound, on the local
  variables.
\<close>

definition add_declarations :: "spv \<Rightarrow> SigParameter list \<Rightarrow> locals \<Rightarrow> fault + locals" where
  "add_declarations K sig st =
     then_do (for_each [0..<length sig] (scalar_output sig) st) (\<lambda>st1.
     then_do (declare_vertidx K st1) (\<lambda>st2.
     then_do (declare_uint32 K st2) (\<lambda>st3.
     then_do (for_each [0..<length sig] (declare_constant K) st3) (\<lambda>st4.
     then_do (for_each [0..<length sig] (declare_uniform_ptr K (length sig)) st4) (\<lambda>st5.
     declare_output_buffer K sig st5)))))"

text \<open>
  The variables of the first pass at its start: every identifier 0, the array
  \<^verbatim>\<open>outs[100] = {0}\<close>.
\<close>

definition initial_found :: found where
  "initial_found =
     \<lparr> vertidxID = 0, sint32ID = 0, sint32PtrInID = 0, uint32ID = 0, halfID = 0, floatID = 0,
       doubleID = 0,
       outs = replicate 100 \<lparr>constID = 0, basetypeID = 0, uniformPtrID = 0\<rparr>,
       maxDescSetBind = 0, decorateOffset = 0, typeVarOffset = 0, messages = [] \<rparr>"

text \<open>
  \<^verbatim>\<open>AddOutputDumping(refl, modSpirv)\<close>, up to the local variables just before the final
  write, and in full: the result is the patched module, the log and the record of
  inserted instructions. The first pass only reads the module and is run on its own
  variables; the module, \<^verbatim>\<open>idBound = spirv[3]\<close> and the empty record of insertions join
  them afterwards.
\<close>

definition AddOutputDumping_locals :: "spv \<Rightarrow> SigParameter list \<Rightarrow> u32 list \<Rightarrow> fault + locals" where
  "AddOutputDumping_locals K sig m =
     then_do (rd m 3) (\<lambda>bound.
     RDCASSERT (length sig < 100) ''numOutputs < 100''
       (then_do (scan_loop K sig m 5 initial_found) (\<lambda>f.
        add_declarations K sig (found.extend f (locals.fields m bound [])))))"

definition AddOutputDumping ::
    "spv \<Rightarrow> SigParameter list \<Rightarrow> u32 list \<Rightarrow> fault + (u32 list \<times> log_entry list \<times> new_instr list)" where
  "AddOutputDumping K sig m =
     then_do (AddOutputDumping_locals K sig m) (\<lambda>st.
       if 3 < length (modSpirv st)
       then Inr ((modSpirv st)[3 := idBound st], messages st, inserted st)
       else Inl (OutOfRange ''spirv''))"

text \<open>The identifiers of the inserted type, constant and variable instructions, in order.\<close>

fun declared_ids :: "new_instr list \<Rightarrow> u32 list" where
  "declared_ids [] = []"
| "declared_ids (NewDecl i ws # xs) = i # declared_ids xs"
| "declared_ids (NewDecoration ws # xs) = declared_ids xs"

text \<open>
  An example module: header with id bound 10, a decoration, \<^verbatim>\<open>OpTypeVoid\<close>, a 32-bit float
  type 2 and its four-component vector 3, and a function. The example shader has one
  output, a \<^verbatim>\<open>vec4\<close>.
\<close>

definition ex_module :: "u32 list" where
  "ex_module = [0x07230203, 0x00010000, 0, 10, 0,
                0x00040047, 9, 34, 0,
                0x00020013, 1,
                0x00030016, 2, 32,
                0x00040017, 3, 2, 4,
                0x00050036, 1, 4, 0, 5,
                0x00010038]"

definition ex_sig :: "SigParameter list" where
  "ex_sig = [\<lparr>sig_compType = eCompType_Float, sig_compCount = 4\<rparr>]"

text \<open>
  What \<^verbatim>\<open>AddOutputDumping\<close> makes of the example module for the example shader with its
  one \<^verbatim>\<open>vec4\<close> output: eleven type, constant and variable instructions with the
  identifiers 10 to 20 and seven decorations; the output structure is type 16, with the
  vector type 3 as its only member.
\<close>

definition ex_patched :: "u32 list" where
  "ex_patched =
     [0x07230203, 0x00010000, 0, 21, 0,
      262215, 9, 34, 0, 262215, 12, 11, 5,
      327752, 16, 0, 35, 0, 327752, 18, 0, 35, 0, 262215, 17, 6, 16,
      196679, 18, 3, 262215, 20, 34, 1, 262215, 20, 33, 0, 131091, 1,
      196630, 2, 32, 262167, 3, 2, 4, 262165, 10, 32, 1, 262176, 11, 1, 10,
      262203, 11, 12, 1, 262165, 13, 32, 0, 262187, 13, 14, 0, 262176, 15,
      2, 3, 196638, 16, 3, 196637, 17, 16, 196638, 18, 17, 262176, 19, 2,
      18, 262203, 19, 20, 2, 327734, 1, 4, 0, 5, 65592]"

definition ex_inserted :: "new_instr list" where
  "ex_inserted =
     [NewDecl 10 [262165, 10, 32, 1], NewDecl 11 [262176, 11, 1, 10],
      NewDecl 12 [262203, 11, 12, 1], NewDecoration [262215, 12, 11, 5],
      NewDecl 13 [262165, 13, 32, 0], NewDecl 14 [262187, 13, 14, 0],
      NewDecl 15 [262176, 15, 2, 3], NewDecl 16 [196638, 16, 3],
      NewDecl 17 [196637, 17, 16], NewDecl 18 [196638, 18, 17],
      NewDecl 19 [262176, 19, 2, 18], NewDecl 20 [262203, 19, 20, 2],
      NewDecoration [327752, 16, 0, 35, 0],
      NewDecoration [327752, 18, 0, 35, 0],
      NewDecoration [262215, 17, 6, 16], NewDecoration [196679, 18, 3],
      NewDecoration [262215, 20, 34, 1],
      NewDecoration [262215, 20, 33, 0]]"

text \<open>
  For the proofs: a result \<open>r\<close> satisfies \<open>res_sat F Q\<close> when it is a fault allowed by
  \<open>F\<close> or a value allowed by \<open>Q\<close>.
\<close>

definition res_sat :: "(fault \<Rightarrow> bool) \<Rightarrow> ('a \<Rightarrow> bool) \<Rightarrow> fault + 'a \<Rightarrow> bool" where
  "res_sat F Q r = (case r of Inl e \<Rightarrow> F e | Inr x \<Rightarrow> Q x)"

text \<open>The faults other than an access outside \<^verbatim>\<open>outs[100]\<close>.\<close>

definition outs_in_bounds :: "fault \<Rightarrow> bool" where
  "outs_in_bounds e = (e \<noteq> OutOfRange ''outs'')"

text \<open>
  The invariant of the identifier allocation, from the id bound \<open>b\<close> of the incoming
  module: the identifiers of the instructions inserted so far are \<open>b\<close>, \<open>b + 1\<close>, ... in
  order, there are at most \<open>k\<close> of them, \<^verbatim>\<open>idBound\<close> is the next one, each inserted
  type, constant or variable instruction carries its identifier as word 1 or word 2, and
  \<^verbatim>\<open>outs\<close> has its 100 elements.
\<close>

definition carries_id :: "new_instr \<Rightarrow> bool" where
  "carries_id x = (case x of NewDecl i ws \<Rightarrow> 2 \<le> length ws \<and> (ws ! 1 = i \<or> ws ! 2 = i)
                           | NewDecoration ws \<Rightarrow> True)"

definition alloc_inv :: "u32 \<Rightarrow> nat \<Rightarrow> locals \<Rightarrow> bool" where
  "alloc_inv b k st =
     (declared_ids (inserted st) = map (\<lambda>j. b + of_nat j) [0..<length (declared_ids (inserted st))] \<and>
      length (declared_ids (inserted st)) \<le> k \<and>
      idBound st = b + of_nat (length (declared_ids (inserted st))) \<and>
      list_all carries_id (inserted st) \<and>
      length (outs st) = 100)"

section \<open>Properties of the ring allocator\<close>

lemma AlignUp_unat:
  assumes "0 < a" "unat x + unat a \<le> 2 ^ 64"
  shows "unat (AlignUp x a) = ((unat x + (unat a - 1)) div unat a) * unat a"
proof -
  have a0: "0 < unat a" using assms(1) by (simp add: word_less_nat_alt)
  have a1: "unat (a - 1) = unat a - 1"
    using assms(1) by (metis unat_minus_one word_neq_0_conv[symmetric] less_numeral_extra(3))
  have lt: "unat x + (unat a - 1) < 2 ^ 64" using assms(2) a0 by linarith
  have s: "unat (x + (a - 1)) = unat x + (unat a - 1)"
    using lt a1 by (simp add: unat_word_ariths)
  have d: "unat ((x + (a - 1)) div a) = (unat x + (unat a - 1)) div unat a"
    by (simp add: unat_div s)
  have le: "(unat x + (unat a - 1)) div unat a * unat a \<le> unat x + (unat a - 1)"
    by simp
  have "unat (((x + (a - 1)) div a) * a) = ((unat x + (unat a - 1)) div unat a * unat a) mod 2 ^ 64"
    by (simp add: unat_word_ariths(2) d)
  also have "\<dots> = (unat x + (unat a - 1)) div unat a * unat a"
    using le lt by (intro mod_less) linarith
  finally show ?thesis by (simp add: AlignUp_def)
qed

lemma round_up_props:
  fixes x a :: nat
  assumes "0 < a"
  shows "((x + (a - 1)) div a) * a mod a = 0" "x \<le> ((x + (a - 1)) div a) * a"
    "((x + (a - 1)) div a) * a < x + a"
proof -
  show "((x + (a - 1)) div a) * a mod a = 0" by simp
  have "(x + (a - 1)) mod a < a" using assms by simp
  moreover have e: "(x + (a - 1)) div a * a + (x + (a - 1)) mod a = x + (a - 1)" by simp
  ultimately show "x \<le> ((x + (a - 1)) div a) * a" using assms by linarith
  show "((x + (a - 1)) div a) * a < x + a" using e assms by linarith
qed

lemma Map_step:
  assumes al: "0 < align b"
    and fit: "unat (totalsize b) + unat (align b) \<le> 2 ^ 32"
    and inv: "ring_inv b"
    and ok: "map_ok r" and le: "map_size b r \<le> totalsize b"
  shows "Map b r = Inr (b\<lparr>curoffset := AlignUp (map_offset b r + map_size b r) (align b)\<rparr>,
                        if has_bind r then Some (ucast (map_offset b r)) else None)"
    and "ring_inv (b\<lparr>curoffset := AlignUp (map_offset b r + map_size b r) (align b)\<rparr>)"
    and "unat (map_offset b r) + unat (map_size b r) \<le> unat (totalsize b)"
    and "unat (map_offset b r) mod unat (align b) = 0"
    and "unat (ucast (map_offset b r) :: u32) = unat (map_offset b r)"
    and "has_bind r \<Longrightarrow> map_offset b r =
              (if unat (curoffset b) + unat (map_size b r) > unat (totalsize b) then 0 else curoffset b)"
proof -
  let ?s = "map_size b r"
  let ?c = "if has_bind r then curoffset b else 0"
  let ?o = "map_offset b r"
  have a0: "0 < unat (align b)" using al by (simp add: word_less_nat_alt)
  have sle: "unat ?s \<le> unat (totalsize b)" using le by (simp add: word_le_nat_alt)
  have cb: "unat ?c < unat (totalsize b) + unat (align b)" and cm: "unat ?c mod unat (align b) = 0"
    using inv a0 by (auto simp: ring_inv_def)
  have sum: "unat (?c + ?s) = unat ?c + unat ?s"
    using cb sle fit by (simp add: unat_word_ariths)
  have odef: "?o = (if unat ?c + unat ?s > unat (totalsize b) then 0 else ?c)"
    by (simp add: map_offset_def Let_def word_less_nat_alt sum)
  show ob: "unat ?o + unat ?s \<le> unat (totalsize b)"
    using sle by (simp add: odef)
  show om: "unat ?o mod unat (align b) = 0"
    using cm by (simp add: odef)
  have osum: "unat (?o + ?s) = unat ?o + unat ?s"
    using ob fit by (simp add: unat_word_ariths)
  have chk: "?o + ?s \<le> totalsize b"
    using ob by (simp add: word_le_nat_alt osum)
  define R where "R = ((unat ?o + unat ?s + (unat (align b) - 1)) div unat (align b)) * unat (align b)"
  have au: "unat (AlignUp (?o + ?s) (align b)) = R"
    using AlignUp_unat[OF al, of "?o + ?s"] ob fit by (simp add: osum R_def)
  show o32: "unat (ucast ?o :: u32) = unat ?o"
  proof -
    have "unat ?o < 2 ^ 32" using ob fit a0 by linarith
    then show ?thesis by (simp add: unsigned_ucast_eq take_bit_nat_eq_self)
  qed
  show "Map b r = Inr (b\<lparr>curoffset := AlignUp (?o + ?s) (align b)\<rparr>,
                       if has_bind r then Some (ucast ?o) else None)"
    using chk ok by (simp add: Map_def Let_def)
  have r1: "R mod unat (align b) = 0" and r3: "R < unat ?o + unat ?s + unat (align b)"
    unfolding R_def using round_up_props[OF a0, of "unat ?o + unat ?s"] by blast+
  have r4: "R < unat (totalsize b) + unat (align b)" using r3 ob by linarith
  show "ring_inv (b\<lparr>curoffset := AlignUp (?o + ?s) (align b)\<rparr>)"
    using r1 r4 by (simp add: ring_inv_def au)
  show "?o = (if unat (curoffset b) + unat ?s > unat (totalsize b) then 0 else curoffset b)"
    if "has_bind r" using that odef by simp
qed

lemma Map_seq_inv:
  assumes "0 < align b" "unat (totalsize b) + unat (align b) \<le> 2 ^ 32" "ring_inv b"
    and "\<forall>q \<in> set rs. map_ok q \<and> map_size b q \<le> totalsize b"
  shows "\<exists>b' outs. Map_seq b rs = Inr (b', outs) \<and> ring_inv b' \<and> sz b' = sz b \<and>
           totalsize b' = totalsize b \<and> align b' = align b"
  using assms
proof (induction rs arbitrary: b)
  case Nil
  then show ?case by simp
next
  case (Cons r rs)
  from Cons.prems have r: "map_ok r" "map_size b r \<le> totalsize b" by simp_all
  define b1 where "b1 = b\<lparr>curoffset := AlignUp (map_offset b r + map_size b r) (align b)\<rparr>"
  have m: "Map b r = Inr (b1, if has_bind r then Some (ucast (map_offset b r)) else None)"
    and i: "ring_inv b1"
    unfolding b1_def using Map_step(1,2)[OF Cons.prems(1,2,3) r] by blast+
  have e: "sz b1 = sz b" "totalsize b1 = totalsize b" "align b1 = align b"
    by (simp_all add: b1_def)
  have ms: "map_size b1 q = map_size b q" for q using e by (simp add: map_size_def)
  have "\<forall>q \<in> set rs. map_ok q \<and> map_size b1 q \<le> totalsize b1"
    using Cons.prems(4) by (simp add: ms e)
  from Cons.IH[OF _ _ i this] Cons.prems(1,2) e
  obtain b2 outs where "Map_seq b1 rs = Inr (b2, outs)" "ring_inv b2" "sz b2 = sz b1"
    "totalsize b2 = totalsize b1" "align b2 = align b1" by auto
  then show ?case using m e by simp
qed

text \<open>
  Claim C2, amended. Take a buffer as \<^verbatim>\<open>Create\<close> leaves it, with a positive alignment and
  with capacity plus alignment at most \<open>2^32\<close>, so that every offset fits the 32-bit
  \<^verbatim>\<open>bindoffset\<close>. After any sequence \<open>rs\<close> of reservations and for any further
  reservation \<open>r\<close>, each with a successful \<^verbatim>\<open>MapMemory\<close> and a size of at most the
  capacity, no call faults, and the offset stored through \<^verbatim>\<open>bindoffset\<close> by \<open>r\<close>
  satisfies \<open>offset + size \<le> totalsize\<close> and \<open>offset mod align = 0\<close> (it is unsigned,
  so \<open>0 \<le> offset\<close>); it is 0 when cursor plus size exceeds the capacity and the cursor
  otherwise.
\<close>

theorem GPUBuffer_Map_offsets:
  assumes "Create minalign size0 ringSize ok = Inr b"
    and "0 < minalign" "unat (totalsize b) + unat minalign \<le> 2 ^ 32"
    and "\<forall>q \<in> set (rs @ [r]). map_ok q \<and> map_size b q \<le> totalsize b"
  shows "\<exists>b1 outs b2 out.
           Map_seq b rs = Inr (b1, outs) \<and> Map b1 r = Inr (b2, out) \<and>
           (has_bind r \<longrightarrow>
              (\<exists>off. out = Some off \<and>
                 unat off + unat (map_size b r) \<le> unat (totalsize b) \<and>
                 unat off mod unat (align b) = 0 \<and>
                 off = (if unat (curoffset b1) + unat (map_size b r) > unat (totalsize b)
                        then 0 else ucast (curoffset b1))))"
proof -
  have c: "curoffset b = 0" "align b = minalign"
    using assms(1) by (auto simp: Create_def Let_def split: if_splits)
  have a0: "0 < align b" and f0: "unat (totalsize b) + unat (align b) \<le> 2 ^ 32"
    using assms(2,3) c by simp_all
  have i0: "ring_inv b" using a0 c(1) by (simp add: ring_inv_def word_less_nat_alt)
  have rs: "\<forall>q \<in> set rs. map_ok q \<and> map_size b q \<le> totalsize b" using assms(4) by simp
  from Map_seq_inv[OF a0 f0 i0 rs] obtain b1 outs where
    s: "Map_seq b rs = Inr (b1, outs)" and i1: "ring_inv b1"
    and e: "sz b1 = sz b" "totalsize b1 = totalsize b" "align b1 = align b" by blast
  have ms: "map_size b1 r = map_size b r" using e by (simp add: map_size_def)
  have r: "map_ok r" "map_size b1 r \<le> totalsize b1" using assms(4) e ms by simp_all
  have al: "0 < align b1" and fit: "unat (totalsize b1) + unat (align b1) \<le> 2 ^ 32"
    using a0 f0 e by simp_all
  note st = Map_step[OF al fit i1 r]
  show ?thesis
    using s st(1,3,4,5,6) by (auto simp: ms e)
qed

text \<open>
  Witness for C2: a ring of four 16-byte slots with 16-byte alignment; after reservations
  of 16 and 20 bytes the cursor is 48, and a reservation of 40 bytes wraps to offset 0.
\<close>

theorem GPUBuffer_Map_offsets_witness:
  "Create 16 16 4 True = Inr \<lparr>sz = 16, totalsize = 64, curoffset = 0, align = 16\<rparr> \<and>
   (\<exists>b1 outs b2 out.
      Map_seq \<lparr>sz = 16, totalsize = 64, curoffset = 0, align = 16\<rparr>
        [\<lparr>has_bind = True, usedsize = 0, map_ok = True\<rparr>,
         \<lparr>has_bind = True, usedsize = 20, map_ok = True\<rparr>] = Inr (b1, outs) \<and>
      Map b1 \<lparr>has_bind = True, usedsize = 40, map_ok = True\<rparr> = Inr (b2, out) \<and>
      out = Some 0 \<and> curoffset b1 = 48)"
  using GPUBuffer_Map_offsets
    [of 16 16 4 True "\<lparr>sz = 16, totalsize = 64, curoffset = 0, align = 16\<rparr>"
        "[\<lparr>has_bind = True, usedsize = 0, map_ok = True\<rparr>,
          \<lparr>has_bind = True, usedsize = 20, map_ok = True\<rparr>]"
        "\<lparr>has_bind = True, usedsize = 40, map_ok = True\<rparr>"]
  by (simp add: Create_def map_size_def Map_def map_offset_def AlignUp_def)

text \<open>
  Counterexample to C2 as stated (positive alignment, sizes within the capacity, nothing
  else): \<^verbatim>\<open>Create\<close> with alignment 3, size 10 and 357913942 ring slots gives a capacity
  above \<open>2^32\<close>; the second reservation is placed at the aligned 64-bit offset
  \<open>2^32 + 2\<close>, and the cast to \<^verbatim>\<open>uint32_t\<close> stores 2, which is not a multiple of 3.
\<close>

theorem GPUBuffer_Map_offsets_counterexample:
  "Create 3 10 357913942 True
     = Inr \<lparr>sz = 10, totalsize = 4294967304, curoffset = 0, align = 3\<rparr> \<and>
   Map_seq \<lparr>sz = 10, totalsize = 4294967304, curoffset = 0, align = 3\<rparr>
     [\<lparr>has_bind = True, usedsize = 4294967298, map_ok = True\<rparr>,
      \<lparr>has_bind = True, usedsize = 1, map_ok = True\<rparr>]
   = Inr (\<lparr>sz = 10, totalsize = 4294967304, curoffset = 4294967301, align = 3\<rparr>, [Some 0, Some 2])
   \<and> unat (2 :: u32) mod unat (3 :: u64) \<noteq> 0
   \<and> (0 :: u64) < 3 \<and> (4294967298 :: u64) \<le> 4294967304 \<and> (1 :: u64) \<le> 4294967304"
  by (simp add: Create_def map_size_def Map_def map_offset_def AlignUp_def)

section \<open>The mesh pipeline cache key\<close>

text \<open>
  Claim C3 fails on the code. The primary stride is masked to 16 bits and shifted left by
  23 as a 32-bit value, so bits 9 to 15 of the stride fall off before the value reaches
  the 64-bit key. For every format function, two primary formats that differ only in
  their stride, 512 against 1024 (both within the asserted bound \<open>0xffff\<close>), and no
  secondary buffer get one and the same key: they select the same entry of
  \<^verbatim>\<open>m_CachedMeshPipelines\<close>.
\<close>

theorem CacheMeshDisplayPipelines_key_collision:
  "mesh_example 512 \<noteq> mesh_example 1024 \<and>
   stride (mesh_example 512) \<le> 0xffff \<and> stride (mesh_example 1024) \<le> 0xffff \<and>
   CacheMeshDisplayPipelines_key mk unk undef (mesh_example 512) mesh_none =
     Inr (6 OR ucast (push_bit 7 (mk (mesh_fmt unk (mesh_example 512)) AND 0xff) :: u32)
            OR ucast (push_bit 15 (undef AND 0xff) :: u32)) \<and>
   CacheMeshDisplayPipelines_key mk unk undef (mesh_example 1024) mesh_none =
     CacheMeshDisplayPipelines_key mk unk undef (mesh_example 512) mesh_none"
  by (simp add: CacheMeshDisplayPipelines_key_def mesh_example_def mesh_none_def mesh_fmt_def
      or.assoc)

section \<open>Decoding handles\<close>

text \<open>
  Claim C7, amended: when reading with a resource manager that is not in the
  structured-exporting state, the decoded handle is the live handle of the id read from
  the stream if the id is non-null and has a live resource, and \<^verbatim>\<open>VK_NULL_HANDLE\<close>
  otherwise. The function has no failing outcome: it returns for every input.
\<close>

theorem DoSerialiseViaResourceId_read:
  assumes "IsReading ser" and "user_data ser = Some rm" and "\<not> structured_exporting rm"
    and "DoSerialise_id ser (if IsStructurising ser then GetOriginalID rm (GetResID el) else 0)
           = (ser', i)"
  shows "snd (snd (DoSerialiseViaResourceId GetResID DoSerialise_id g ser el)) =
           (if i \<noteq> 0 \<and> live rm i \<noteq> None then the (live rm i) else VK_NULL_HANDLE)"
  using assms
  by (auto simp: DoSerialiseViaResourceId_def Let_def IsReading_def IsWriting_def
        HasLiveResource_def GetLiveHandle_def split: option.splits)

text \<open>Witness for C7: id 7 is live as handle 42, and the stale value 5 of \<open>el\<close> is replaced.\<close>

theorem DoSerialiseViaResourceId_read_witness:
  "snd (snd (DoSerialiseViaResourceId ex_GetResID (ex_read_id 7)
       \<lparr>Counter = 0, log = []\<rparr> (ex_reader False) 5)) = 42"
  using DoSerialiseViaResourceId_read [of "ex_reader False" "ex_rm False" "ex_read_id 7"
      ex_GetResID 5 "ex_reader False" 7 "\<lparr>Counter = 0, log = []\<rparr>"]
  by (simp add: IsReading_def IsStructurising_def ex_reader_def ex_rm_def ex_read_id_def)

text \<open>
  Counterexample to C7 as stated: a reader with a resource manager in the
  structured-exporting state leaves \<open>el\<close> alone, so with the null id on the stream the
  value 5 that \<open>el\<close> held before the call is still there afterwards.
\<close>

theorem DoSerialiseViaResourceId_read_counterexample:
  "IsReading (ex_reader True) \<and> user_data (ex_reader True) = Some (ex_rm True) \<and>
   DoSerialiseViaResourceId ex_GetResID (ex_read_id 0) \<lparr>Counter = 0, log = []\<rparr> (ex_reader True) 5
     = (\<lparr>Counter = 0, log = []\<rparr>, ex_reader True, 5) \<and>
   (5 :: VkHandle) \<noteq> VK_NULL_HANDLE"
  by (simp add: DoSerialiseViaResourceId_def IsReading_def IsWriting_def IsStructurising_def
      ex_reader_def ex_rm_def ex_read_id_def VK_NULL_HANDLE_def)

text \<open>
  Claim C8, amended: when reading with a resource manager that is not structured
  exporting, a non-null id without a live resource always resolves to
  \<^verbatim>\<open>VK_NULL_HANDLE\<close>; while the optional-resource counter is positive nothing is logged,
  and otherwise exactly one warning naming the id is appended to the log.
\<close>

theorem DoSerialiseViaResourceId_missing:
  assumes "IsReading ser" and "user_data ser = Some rm" and "\<not> structured_exporting rm"
    and "DoSerialise_id ser (if IsStructurising ser then GetOriginalID rm (GetResID el) else 0)
           = (ser', i)"
    and "i \<noteq> 0" and "live rm i = None"
  shows "DoSerialiseViaResourceId GetResID DoSerialise_id g ser el =
           (if OptionalResourcesEnabled g then g else g\<lparr>log := log g @ [WarnMissingReference i]\<rparr>,
            ser', VK_NULL_HANDLE)"
  using assms
  by (auto simp: DoSerialiseViaResourceId_def Let_def IsReading_def IsWriting_def
        HasLiveResource_def split: option.splits)

text \<open>Witness for C8: outside the scope, the missing id 9 is reported by one warning.\<close>

theorem DoSerialiseViaResourceId_missing_witness:
  "DoSerialiseViaResourceId ex_GetResID (ex_read_id 9) \<lparr>Counter = 0, log = []\<rparr> (ex_reader False) 5
     = (\<lparr>Counter = 0, log = [WarnMissingReference 9]\<rparr>, ex_reader False, VK_NULL_HANDLE)"
  using DoSerialiseViaResourceId_missing [of "ex_reader False" "ex_rm False" "ex_read_id 9"
      ex_GetResID 5 "ex_reader False" 9 "\<lparr>Counter = 0, log = []\<rparr>"]
  by (simp add: IsReading_def IsStructurising_def ex_reader_def ex_rm_def ex_read_id_def
      OptionalResourcesEnabled_def)

text \<open>
  Counterexample to C8 as stated: inside an \<^verbatim>\<open>OPTIONAL_RESOURCES\<close> scope the missing id 9
  resolves to null, but the log is as empty afterwards as it was before.
\<close>

theorem DoSerialiseViaResourceId_missing_counterexample:
  "OPTIONAL_RESOURCES
     (\<lambda>g. case DoSerialiseViaResourceId ex_GetResID (ex_read_id 9) g (ex_reader False) 5 of
             (g', ser', el') \<Rightarrow> (g', el'))
     \<lparr>Counter = 0, log = []\<rparr>
   = (\<lparr>Counter = 0, log = []\<rparr>, VK_NULL_HANDLE)"
  by (simp add: OPTIONAL_RESOURCES_def OptionalResources_ctor_def OptionalResources_dtor_def
      DoSerialiseViaResourceId_def IsReading_def IsWriting_def IsStructurising_def
      HasLiveResource_def OptionalResourcesEnabled_def ex_reader_def ex_rm_def ex_read_id_def)

section \<open>Extension chains\<close>

lemma walk_pNext_filter:
  assumes "\<forall>n \<in> set c. cls (n_sType n) \<noteq> PNEXT_STRUCT Stub"
  shows "IType p # fst (snd (walk_pNext cls h lg c)) =
           chain_stream p (filter (\<lambda>n. cls (n_sType n) = PNEXT_STRUCT Walks) c)"
  using assms
proof (induction c arbitrary: p h lg)
  case Nil
  then show ?case by simp
next
  case (Cons n ns)
  show ?case
  proof (cases "cls (n_sType n)")
    case (PNEXT_STRUCT k)
    with Cons.prems have k: "k = Walks" by (cases k) auto
    have "IType (n_sType n) # fst (snd (walk_pNext cls False lg ns)) =
            chain_stream (n_sType n) (filter (\<lambda>n. cls (n_sType n) = PNEXT_STRUCT Walks) ns)"
      using Cons.IH Cons.prems by simp
    then show ?thesis using PNEXT_STRUCT k by (simp add: case_prod_beta)
  next
    case PNEXT_UNSUPPORTED
    then show ?thesis using Cons.IH Cons.prems by (simp add: case_prod_beta)
  next
    case PNEXT_NONE
    then show ?thesis using Cons.IH Cons.prems by (simp add: case_prod_beta)
  qed
qed

lemma walk_pNext_chain:
  assumes "\<forall>n \<in> set c. cls (n_sType n) \<noteq> PNEXT_STRUCT Stub"
  shows "snd (snd (walk_pNext cls h lg c)) = c"
  using assms
proof (induction c arbitrary: h lg)
  case Nil
  then show ?case by simp
next
  case (Cons n ns)
  show ?case
  proof (cases "cls (n_sType n)")
    case (PNEXT_STRUCT k)
    with Cons.prems have k: "k = Walks" by (cases k) auto
    show ?thesis using PNEXT_STRUCT k Cons.IH Cons.prems by (simp add: case_prod_beta)
  next
    case PNEXT_UNSUPPORTED
    then show ?thesis using Cons.IH Cons.prems by (simp add: case_prod_beta)
  next
    case PNEXT_NONE
    then show ?thesis using Cons.IH Cons.prems by (simp add: case_prod_beta)
  qed
qed

lemma no_support_entries_Nil: "no_support_entries [] = []"
  by (simp add: no_support_entries_def)

lemma no_support_entries_append:
  "no_support_entries (a @ b) = no_support_entries a @ no_support_entries b"
  by (simp add: no_support_entries_def)

lemma walk_pNext_log:
  assumes "\<forall>n \<in> set c. cls (n_sType n) \<noteq> PNEXT_STRUCT Stub"
  shows "no_support_entries (fst (walk_pNext cls h lg c)) =
           no_support_entries lg @
           map n_sType (filter (\<lambda>n. cls (n_sType n) = PNEXT_UNSUPPORTED) c)"
  using assms
proof (induction c arbitrary: h lg)
  case Nil
  then show ?case by simp
next
  case (Cons n ns)
  show ?case
  proof (cases "cls (n_sType n)")
    case (PNEXT_STRUCT k)
    with Cons.prems have k: "k = Walks" by (cases k) auto
    show ?thesis using PNEXT_STRUCT k Cons.IH[of False lg] Cons.prems
      by (simp add: case_prod_beta)
  next
    case PNEXT_UNSUPPORTED
    then show ?thesis using Cons.IH[of True "lg @ [ErrNoSupport (n_sType n)]"] Cons.prems
      by (simp add: no_support_entries_append case_prod_beta) (simp add: no_support_entries_def)
  next
    case PNEXT_NONE
    then show ?thesis
      using Cons.IH[of h "if h then lg else lg @ [ErrInvalidNextWrite (n_sType n)]"] Cons.prems
      by (simp add: no_support_entries_append case_prod_beta) (simp add: no_support_entries_def)
  qed
qed

lemma SerialiseNext_read_chain_stream:
  assumes "\<forall>n \<in> set c. cls (n_sType n) = PNEXT_STRUCT Walks"
  shows "SerialiseNext_read cls lg err (chain_stream p c @ rest) = Inr (lg, err, rest, p, c)"
  using assms
proof (induction c arbitrary: p rest)
  case Nil
  then show ?case by simp
next
  case (Cons n ns)
  have "SerialiseNext_read cls lg err (chain_stream (n_sType n) ns @ IMembers (n_members n) # rest)
          = Inr (lg, err, IMembers (n_members n) # rest, n_sType n, ns)"
    using Cons.IH Cons.prems by simp
  then show ?case using Cons.prems by simp
qed

text \<open>
  Claim C6, amended. On the writing branch, for a chain without a structure whose
  serialiser is a stub: \<^verbatim>\<open>SerialiseNext\<close> returns, and the items it appends are those of the
  chain with every unsupported and every unknown node removed, so each structure with a
  full serialiser is written, in order, whatever was skipped before it; if nothing is
  left, the parent type is followed by a null type. The error flag is unchanged, and
  the log receives one "no support" entry per unsupported node, in chain order.
\<close>

theorem SerialiseNext_write_skips_unsupported:
  assumes "\<not> (IsReading ser \<and> \<not> IsStructurising ser)"
    and "\<forall>n \<in> set c. cls (n_sType n) \<noteq> PNEXT_STRUCT Stub"
  shows "\<exists>g' ser'.
           SerialiseNext cls g ser p c = Inr (g', ser', p, c) \<and>
           stream ser' = stream ser @ chain_stream p (filter (\<lambda>n. cls (n_sType n) = PNEXT_STRUCT Walks) c) \<and>
           (filter (\<lambda>n. cls (n_sType n) = PNEXT_STRUCT Walks) c = [] \<longrightarrow>
              stream ser' = stream ser @ [IType p, INull]) \<and>
           errored ser' = errored ser \<and>
           no_support_entries (log g') = no_support_entries (log g) @
             map n_sType (filter (\<lambda>n. cls (n_sType n) = PNEXT_UNSUPPORTED) c)"
proof -
  obtain lg items c' where w: "walk_pNext cls False (log g) c = (lg, items, c')"
    by (cases "walk_pNext cls False (log g) c") auto
  have c': "c' = c" using walk_pNext_chain[OF assms(2), of False "log g"] w by simp
  have s: "IType p # items = chain_stream p (filter (\<lambda>n. cls (n_sType n) = PNEXT_STRUCT Walks) c)"
    using walk_pNext_filter[OF assms(2), of p False "log g"] w by simp
  have l: "no_support_entries lg = no_support_entries (log g) @
             map n_sType (filter (\<lambda>n. cls (n_sType n) = PNEXT_UNSUPPORTED) c)"
    using walk_pNext_log[OF assms(2), of False "log g"] w by simp
  have r: "SerialiseNext cls g ser p c =
             Inr (g\<lparr>log := lg\<rparr>, ser\<lparr>stream := stream ser @ IType p # items\<rparr>, p, c)"
    using assms(1) w c' by (auto simp: SerialiseNext_def)
  have s': "stream ser @ IType p # items =
      stream ser @ chain_stream p (filter (\<lambda>n. cls (n_sType n) = PNEXT_STRUCT Walks) c)"
    using s by simp
  show ?thesis
    unfolding r
    apply (rule exI[of _ "g\<lparr>log := lg\<rparr>"])
    apply (rule exI[of _ "ser\<lparr>stream := stream ser @ IType p # items\<rparr>"])
    using s' l by auto
qed

text \<open>
  Witness for C6: in the chain 4, 1, 7, 2 the compiled-out node 4 and the unknown node 7
  are skipped; nodes 1 and 2 are written.
\<close>

theorem SerialiseNext_write_skips_unsupported_witness:
  "\<exists>g' ser'.
     SerialiseNext ex_cls \<lparr>Counter = 0, log = []\<rparr> (ex_ser Writing []) 9
       [ex_node 4, ex_node 1, ex_node 7, ex_node 2]
       = Inr (g', ser', 9, [ex_node 4, ex_node 1, ex_node 7, ex_node 2]) \<and>
     stream ser' = [IType 9, IPresent, IType 1, IPresent, IType 1, IPresent, IType 2, IPresent,
                    IType 2, INull, IMembers [12], IMembers [11]] \<and>
     \<not> errored ser' \<and>
     no_support_entries (log g') = [4]"
  using SerialiseNext_write_skips_unsupported
    [of "ex_ser Writing []" "[ex_node 4, ex_node 1, ex_node 7, ex_node 2]" ex_cls
        "\<lparr>Counter = 0, log = []\<rparr>" 9]
  by (simp add: IsReading_def ex_ser_def ex_node_def ex_cls_def no_support_entries_Nil)

text \<open>
  Counterexample to C6 as stated: in the chain 4, 3, 2 the node 2 has a full serialiser
  and follows the unsupported node 4, but the stub serialiser of node 3 ends the written
  chain: neither the type nor the members of node 2 reach the stream (and node 3 is left
  erased, without a successor).
\<close>

theorem SerialiseNext_write_skips_unsupported_counterexample:
  "SerialiseNext ex_cls \<lparr>Counter = 0, log = []\<rparr> (ex_ser Writing []) 9
     [ex_node 4, ex_node 3, ex_node 2]
   = Inr (\<lparr>Counter = 0, log = [ErrNoSupport 4, ErrStubSerialised 3]\<rparr>,
          ex_ser Writing [IType 9, IPresent, IType 3, IPresent],
          9, [ex_node 4, \<lparr>n_sType = 3, n_members = []\<rparr>]) \<and>
   ex_cls 4 = PNEXT_UNSUPPORTED \<and> ex_cls 2 = PNEXT_STRUCT Walks"
  by (simp add: SerialiseNext_def IsReading_def ex_ser_def ex_node_def ex_cls_def)

text \<open>
  What the reading branch does with a type it cannot decode, for every sorting of the
  types: it returns with a null \<^verbatim>\<open>pNext\<close>, one error in the log, and the stream
  positioned directly behind that type, so nothing of the node or of the nodes after it
  is decoded. A compiled-out type raises the serialiser's error flag; a type without an
  entry does not touch the flag.
\<close>

lemma SerialiseNext_read_rejected_tag:
  assumes "IsReading ser" and "\<not> IsStructurising ser"
    and "stream ser = IType p # IPresent # IType t # rest"
    and "cls t = PNEXT_UNSUPPORTED \<or> cls t = PNEXT_NONE"
  shows "SerialiseNext cls g ser sT pN =
           Inr (g\<lparr>log := log g @ [if cls t = PNEXT_UNSUPPORTED then ErrNoSupport t
                                   else ErrInvalidNextRead t]\<rparr>,
                ser\<lparr>errored := (errored ser \<or> cls t = PNEXT_UNSUPPORTED), stream := rest\<rparr>,
                p, [])"
  using assms by (auto simp: SerialiseNext_def)

text \<open>
  Claim C5 fails on the code. The claim asks that a type that is compiled out or not in
  the recognised set makes the read unrecoverable: the serialiser errored, \<^verbatim>\<open>pNext\<close> null,
  nothing further decoded. The \<^verbatim>\<open>PNEXT_UNSUPPORTED\<close> case does that
  (\<^verbatim>\<open>pNext = NULL; ser.SetErrored(); return;\<close>), and the source says why: on read "we
  *cannot* continue since we don't know the members that got serialised after it". A
  type without an entry is in the same position, but it only falls through the switch
  to \<^verbatim>\<open>if(!handled) RDCERR(...)\<close>, which has no \<^verbatim>\<open>SetErrored()\<close>.

  With the unknown type 7 on the stream the read logs an error and yields a null
  \<^verbatim>\<open>pNext\<close>, but the serialiser is not in the errored state afterwards, although the data
  of the node is still unread in the stream; with the compiled-out type 4 in the same
  place the error flag is raised.
\<close>

theorem SerialiseNext_read_unknown_tag:
  "ex_cls 7 = PNEXT_NONE \<and>
   SerialiseNext ex_cls \<lparr>Counter = 0, log = []\<rparr>
     (ex_ser Reading [IType 9, IPresent, IType 7, IPresent, IType 7, INull, IMembers [17]]) 0 []
   = Inr (\<lparr>Counter = 0, log = [ErrInvalidNextRead 7]\<rparr>,
          ex_ser Reading [IPresent, IType 7, INull, IMembers [17]],
          9, []) \<and>
   \<not> errored (ex_ser Reading [IPresent, IType 7, INull, IMembers [17]]) \<and>
   ex_cls 4 = PNEXT_UNSUPPORTED \<and>
   SerialiseNext ex_cls \<lparr>Counter = 0, log = []\<rparr>
     (ex_ser Reading [IType 9, IPresent, IType 4, IPresent, IType 4, INull, IMembers [14]]) 0 []
   = Inr (\<lparr>Counter = 0, log = [ErrNoSupport 4]\<rparr>,
          (ex_ser Reading [IPresent, IType 4, INull, IMembers [14]])\<lparr>errored := True\<rparr>,
          9, [])"
  by (simp add: SerialiseNext_def IsReading_def IsStructurising_def ex_ser_def ex_cls_def)

section \<open>Patching the fixed-colour shader\<close>

declare patch_loop.simps [simp del] instructions.simps [simp del]

lemma instructions_step:
  assumes "it < length s" "WordCount K (s ! it) \<noteq> 0"
  shows "instructions K s it = it # instructions K s (it + unat (WordCount K (s ! it)))"
  using assms by (subst instructions.simps) simp

lemma instructions_hd: "it < length s \<Longrightarrow> it \<in> set (instructions K s it)"
  by (subst instructions.simps) simp

lemma instructions_end: "\<not> it < length s \<Longrightarrow> instructions K s it = []"
  by (subst instructions.simps) simp

lemma instructions_ge: "i \<in> set (instructions K s it) \<Longrightarrow> it \<le> i"
proof (induction K s it rule: instructions.induct)
  case (1 K s it)
  show ?case
  proof (cases "it < length s \<and> WordCount K (s ! it) \<noteq> 0")
    case True
    then have "i = it \<or> i \<in> set (instructions K s (it + unat (WordCount K (s ! it))))"
      using "1.prems" by (simp add: instructions_step)
    then show ?thesis using "1.IH" True by fastforce
  next
    case False
    then show ?thesis using "1.prems" by (subst (asm) instructions.simps) (auto split: if_splits)
  qed
qed

lemma constant_sites_ge: "j \<in> set (constant_sites K s it) \<Longrightarrow> it + 3 \<le> j"
  by (auto simp: constant_sites_def dest: instructions_ge)

lemma replace_sentinel_id: "\<not> is_sentinel w \<Longrightarrow> replace_sentinel col w = w"
  by (cases col) (simp add: replace_sentinel_def is_sentinel_def)

lemma patch_constant_eq:
  assumes "it + 3 < length b"
  shows "patch_constant col lg b it =
           Inr (b[it + 3 := replace_sentinel col (b ! (it + 3))],
                lg @ (if is_sentinel (b ! (it + 3)) then [] else [ErrUnexpectedConstant]))"
  using assms
  by (cases col) (simp add: patch_constant_def replace_sentinel_def is_sentinel_def)

lemma patch_loop_wf:
  assumes "wf_from K blob it" and "length b = length blob"
    and "\<forall>j. it \<le> j \<and> j < length blob \<longrightarrow> b ! j = blob ! j"
  shows "patch_loop K col lg b it =
           Inr (map (\<lambda>j. if j \<in> set (constant_sites K blob it) then replace_sentinel col (blob ! j)
                          else b ! j) [0..<length blob],
                lg @ unexpected_constants K blob it)"
  using assms
proof (induction K blob it arbitrary: b lg rule: instructions.induct)
  case (1 K blob it)
  show ?case
  proof (cases "it < length blob")
    case False
    then have "patch_loop K col lg b it = Inr (b, lg)"
      using "1.prems"(2) by (subst patch_loop.simps) simp
    moreover have "map ((!) b) [0..<length blob] = b"
      using "1.prems"(2) map_nth[of b] by simp
    ultimately show ?thesis
      using False by (simp add: constant_sites_def unexpected_constants_def instructions_end)
  next
    case True
    let ?w = "blob ! it"
    let ?n = "unat (WordCount K ?w)"
    let ?it' = "it + ?n"
    have bit: "b ! it = ?w" using "1.prems"(3) True by simp
    have ins: "instructions K blob it = it # instructions K blob ?it'" if "WordCount K ?w \<noteq> 0"
      using that True by (rule instructions_step[rotated])
    have wf0: "WordCount K ?w \<noteq> 0"
      using "1.prems"(1) instructions_hd[OF True, of K] by (auto simp: wf_from_def list_all_iff)
    have fits: "?it' \<le> length blob"
      and c4: "opcode K ?w = OpConstant K \<Longrightarrow> 4 \<le> ?n"
      and wf': "wf_from K blob ?it'"
      using "1.prems"(1) by (simp_all add: wf_from_def ins[OF wf0])
    have n0: "0 < ?n" using wf0 by (simp add: unat_gt_0)
    show ?thesis
    proof (cases "opcode K ?w = OpConstant K")
      case False
      have agree: "\<forall>j. ?it' \<le> j \<and> j < length blob \<longrightarrow> b ! j = blob ! j"
        using "1.prems"(3) by simp
      have step: "patch_loop K col lg b it = patch_loop K col lg b ?it'"
        using True "1.prems"(2) False wf0 bit by (subst patch_loop.simps) simp
      have sites: "constant_sites K blob it = constant_sites K blob ?it'"
        using False by (simp add: constant_sites_def ins[OF wf0])
      show ?thesis
        unfolding step
        using "1.IH"[OF True wf0 wf' "1.prems"(2) agree, of lg]
        by (simp add: sites unexpected_constants_def)
    next
      case c: True
      have i3: "it + 3 < length blob" using c4[OF c] fits by simp
      let ?b1 = "b[it + 3 := replace_sentinel col (blob ! (it + 3))]"
      let ?lg1 = "lg @ (if is_sentinel (blob ! (it + 3)) then [] else [ErrUnexpectedConstant])"
      have b3: "b ! (it + 3) = blob ! (it + 3)" using "1.prems"(3) i3 by simp
      have pc: "patch_constant col lg b it = Inr (?b1, ?lg1)"
        using patch_constant_eq[of it b col lg] i3 "1.prems"(2) b3 by simp
      have step: "patch_loop K col lg b it = patch_loop K col ?lg1 ?b1 ?it'"
        using True "1.prems"(2) c wf0 bit pc by (subst patch_loop.simps) simp
      have len1: "length ?b1 = length blob" using "1.prems"(2) by simp
      have agree: "\<forall>j. ?it' \<le> j \<and> j < length blob \<longrightarrow> ?b1 ! j = blob ! j"
        using "1.prems"(3) c4[OF c] by simp
      have sites: "constant_sites K blob it = (it + 3) # constant_sites K blob ?it'"
        using c by (simp add: constant_sites_def ins[OF wf0])
      have notin: "it + 3 \<notin> set (constant_sites K blob ?it')"
        using constant_sites_ge[of "it + 3" K blob ?it'] n0 by auto
      have m: "map (\<lambda>j. if j \<in> set (constant_sites K blob ?it') then replace_sentinel col (blob ! j)
                          else ?b1 ! j) [0..<length blob]
             = map (\<lambda>j. if j \<in> set (constant_sites K blob it) then replace_sentinel col (blob ! j)
                          else b ! j) [0..<length blob]"
      proof (rule map_cong[OF refl])
        fix j assume "j \<in> set [0..<length blob]"
        then have jl: "j < length b" using "1.prems"(2) by simp
        show "(if j \<in> set (constant_sites K blob ?it') then replace_sentinel col (blob ! j)
               else ?b1 ! j)
            = (if j \<in> set (constant_sites K blob it) then replace_sentinel col (blob ! j)
               else b ! j)"
          using notin jl by (cases "j = it + 3") (simp_all add: sites)
      qed
      have lgs: "?lg1 @ unexpected_constants K blob ?it' = lg @ unexpected_constants K blob it"
        by (simp add: unexpected_constants_def sites)
      show ?thesis
        unfolding step
        using "1.IH"[OF True wf0 wf' len1 agree, of ?lg1] m lgs by simp
    qed
  qed
qed

text \<open>
  Claim C10. For a blob that is a well-formed instruction stream,
  \<^verbatim>\<open>PatchFixedColShader\<close> returns from its loop with a blob of the same length that
  differs from the embedded one only at the literal operand word (offset 3) of
  \<^verbatim>\<open>OpConstant\<close> instructions holding \<^verbatim>\<open>1.1f\<close>, \<^verbatim>\<open>2.2f\<close>, \<^verbatim>\<open>3.3f\<close> or \<^verbatim>\<open>4.4f\<close>, which
  become \<^verbatim>\<open>col[0]\<close> to \<^verbatim>\<open>col[3]\<close>; an \<^verbatim>\<open>OpConstant\<close> with another literal adds one error
  to the log and changes nothing.
\<close>

theorem PatchFixedColShader_patches_sentinels:
  assumes "wf_from K blob 5"
  shows "\<exists>blob'.
           PatchFixedColShader_spirv K blob col lg = Inr (blob', lg @ unexpected_constants K blob 5) \<and>
           blob' = patched_blob K col blob \<and>
           length blob' = length blob \<and>
           (\<forall>j < length blob.
              blob' ! j = (if j \<in> set (constant_sites K blob 5) \<and> blob ! j = f1_1 then fst col
                           else if j \<in> set (constant_sites K blob 5) \<and> blob ! j = f2_2 then fst (snd col)
                           else if j \<in> set (constant_sites K blob 5) \<and> blob ! j = f3_3 then fst (snd (snd col))
                           else if j \<in> set (constant_sites K blob 5) \<and> blob ! j = f4_4 then snd (snd (snd col))
                           else blob ! j))"
proof -
  have r: "PatchFixedColShader_spirv K blob col lg =
             Inr (patched_blob K col blob, lg @ unexpected_constants K blob 5)"
    using patch_loop_wf[OF assms refl, of col lg]
    by (simp add: PatchFixedColShader_spirv_def patched_blob_def)
  have p: "patched_blob K col blob ! j =
             (if j \<in> set (constant_sites K blob 5) \<and> blob ! j = f1_1 then fst col
              else if j \<in> set (constant_sites K blob 5) \<and> blob ! j = f2_2 then fst (snd col)
              else if j \<in> set (constant_sites K blob 5) \<and> blob ! j = f3_3 then fst (snd (snd col))
              else if j \<in> set (constant_sites K blob 5) \<and> blob ! j = f4_4 then snd (snd (snd col))
              else blob ! j)" if "j < length blob" for j
    using that by (cases col) (simp add: patched_blob_def replace_sentinel_def)
  show ?thesis
    using r p by (simp add: patched_blob_def)
qed

text \<open>
  Witness for C10: in the example blob the literals \<^verbatim>\<open>1.1f\<close> and \<^verbatim>\<open>3.3f\<close> become the
  first and the third colour channel, and the constant 7 is reported.
\<close>

theorem PatchFixedColShader_patches_sentinels_witness:
  "PatchFixedColShader_spirv spv10 ex_blob ex_col [] =
     Inr ([0x07230203, 0x00010000, 0, 20, 0,
           0x00040015, 1, 32, 0,
           0x0004002b, 2, 3, 0x3f800000,
           0x0004002b, 2, 4, 0x3f000000,
           0x0004002b, 1, 5, 7,
           0x00010038], [ErrUnexpectedConstant])"
proof -
  have wf: "wf_from spv10 ex_blob 5" by code_simp
  have pb: "patched_blob spv10 ex_col ex_blob =
          [0x07230203, 0x00010000, 0, 20, 0,
           0x00040015, 1, 32, 0,
           0x0004002b, 2, 3, 0x3f800000,
           0x0004002b, 2, 4, 0x3f000000,
           0x0004002b, 1, 5, 7,
           0x00010038]" by code_simp
  have uc: "unexpected_constants spv10 ex_blob 5 = [ErrUnexpectedConstant]" by code_simp
  show ?thesis
    using PatchFixedColShader_patches_sentinels[OF wf, of ex_col "[]"] pb uc by auto
qed


section \<open>The overlay request\<close>

lemma then_do_Inr:
  "then_do m f = Inr y \<longleftrightarrow> (\<exists>x. m = Inr x \<and> f x = Inr y)"
  by (cases m) (simp_all add: then_do_def)

lemma RDCASSERT_Inr:
  "RDCASSERT c msg k = Inr y \<longleftrightarrow> c \<and> k = Inr y"
  by (simp add: RDCASSERT_def)

lemma unchanged_refl: "unchanged d d"
  by (simp add: unchanged_def)

lemma unchanged_trans: "unchanged a b \<Longrightarrow> unchanged b c \<Longrightarrow> unchanged a c"
  by (simp add: unchanged_def)

lemma vk_checked_kept:
  "vk_checked E c d = Inr d' \<Longrightarrow>
     state d' = state d \<and> objects d' = objects d \<and> renderPassActive d' = renderPassActive d"
  by (auto simp: vk_checked_def RDCASSERT_Inr split: prod.splits)

lemma vk_checked_unchanged: "vk_checked E c d = Inr d' \<Longrightarrow> unchanged d d'"
  by (drule vk_checked_kept) (simp add: unchanged_def ephemeral_def)

lemma vk_unchecked_kept:
  "state (vk_unchecked E c d) = state d" "objects (vk_unchecked E c d) = objects d"
  "renderPassActive (vk_unchecked E c d) = renderPassActive d"
  by (simp_all add: vk_unchecked_def)

lemma vk_unchecked_unchanged: "unchanged d (vk_unchecked E c d)"
  by (simp add: unchanged_def ephemeral_def vk_unchecked_kept)

lemma vkCreate_kept:
  "vkCreate E k d = Inr (h, d') \<Longrightarrow>
     state d' = state d \<and> objects d' = insert (k, h) (objects d) \<and>
     renderPassActive d' = renderPassActive d"
  by (auto simp: vkCreate_def RDCASSERT_Inr split: prod.splits)

lemma vkCreate_unchanged:
  "vkCreate E k d = Inr (h, d') \<Longrightarrow> k \<notin> ephemeral_kinds \<Longrightarrow> unchanged d d'"
  by (drule vkCreate_kept) (auto simp: unchanged_def ephemeral_def)

lemma vkDestroy_kept:
  "state (vkDestroy E k h d) = state d" "objects (vkDestroy E k h d) = objects d - {(k, h)}"
  "renderPassActive (vkDestroy E k h d) = renderPassActive d"
  by (simp_all add: vkDestroy_def)

lemma vkDestroy_unchanged: "k \<notin> ephemeral_kinds \<Longrightarrow> unchanged d (vkDestroy E k h d)"
  by (auto simp: unchanged_def ephemeral_def vkDestroy_kept)

lemma next_cmd_kept:
  "next_cmd E d = (c, d') \<Longrightarrow>
     state d' = state d \<and> objects d' = objects d \<and> renderPassActive d' = renderPassActive d"
  by (auto simp: next_cmd_def split: prod.splits)

lemma next_cmd_unchanged: "next_cmd E d = (c, d') \<Longrightarrow> unchanged d d'"
  by (drule next_cmd_kept) (simp add: unchanged_def ephemeral_def)

lemma replay_call_objects: "objects (replay_call f d) = objects d"
  by (simp add: replay_call_def split: prod.splits)

lemma other_kinds:
  "KImage \<notin> ephemeral_kinds" "KImageView \<notin> ephemeral_kinds" "KDeviceMemory \<notin> ephemeral_kinds"
  "KRenderPass \<notin> ephemeral_kinds" "KFramebuffer \<notin> ephemeral_kinds"
  by (simp_all add: ephemeral_kinds_def)

lemma free_overlay_image_unchanged:
  assumes "free_overlay_image E extent (m, d) = (m', d')"
  shows "unchanged d d'"
proof (cases "m_OverlayImage m \<noteq> VK_NULL_HANDLE \<and>
           (fst extent \<noteq> fst (m_OverlayDim m) \<or> snd extent \<noteq> snd (m_OverlayDim m))")
  case True
  let ?d1 = "vkDestroy E KRenderPass (m_OverlayNoDepthRP m) d"
  let ?d2 = "vkDestroy E KFramebuffer (m_OverlayNoDepthFB m) ?d1"
  let ?d3 = "vkDestroy E KImageView (m_OverlayImageView m) ?d2"
  have "d' = vkDestroy E KImage (m_OverlayImage m) ?d3"
    using assms True by (auto simp: free_overlay_image_def Let_def)
  moreover have "unchanged d ?d1" "unchanged ?d1 ?d2" "unchanged ?d2 ?d3"
    "unchanged ?d3 (vkDestroy E KImage (m_OverlayImage m) ?d3)"
    by (rule vkDestroy_unchanged, rule other_kinds)+
  ultimately show ?thesis by (blast intro: unchanged_trans)
next
  case False
  then have "d' = d" using assms by (auto simp: free_overlay_image_def)
  then show ?thesis by (simp add: unchanged_refl)
qed

lemma alloc_overlay_memory_unchanged:
  assumes "alloc_overlay_memory E sz0 (m, d) = Inr (m', d')"
  shows "unchanged d d'"
proof (cases "m_OverlayImageMem m = VK_NULL_HANDLE \<or> sz0 > m_OverlayMemSize m")
  case False
  then have "d' = d" using assms by (auto simp: alloc_overlay_memory_def)
  then show ?thesis by (simp add: unchanged_refl)
next
  case True
  let ?d1 = "if m_OverlayImageMem m \<noteq> VK_NULL_HANDLE
             then vkDestroy E KDeviceMemory (m_OverlayImageMem m) d else d"
  from assms True obtain mem where c: "vkCreate E KDeviceMemory ?d1 = Inr (mem, d')"
    by (auto simp: alloc_overlay_memory_def Let_def then_do_Inr)
  have "unchanged d ?d1"
    by (simp add: unchanged_refl vkDestroy_unchanged other_kinds)
  then show ?thesis
    using vkCreate_unchanged[OF c other_kinds(3)] by (blast intro: unchanged_trans)
qed

lemma create_overlay_image_unchanged:
  assumes "create_overlay_image E cmd extent (m, d) = Inr (m', d')"
  shows "unchanged d d'"
proof (cases "m_OverlayImage m = VK_NULL_HANDLE")
  case False
  then show ?thesis using assms by (simp add: create_overlay_image_def unchanged_refl)
next
  case True
  from assms True obtain image d1 mrq m3 d2 d3 view d4 rp d7 fb where
    c1: "vkCreate E KImage d = Inr (image, d1)"
    and a: "alloc_overlay_memory E mrq (m\<lparr>m_OverlayDim := extent, m_OverlayImage := image\<rparr>, d1) = Inr (m3, d2)"
    and b: "vk_checked E (BindImageMemory image (m_OverlayImageMem m3)) d2 = Inr d3"
    and c2: "vkCreate E KImageView d3 = Inr (view, d4)"
    and c3: "vkCreate E KRenderPass (vk_unchecked E (CmdPipelineBarrier cmd image)
                                (vk_unchecked E (SetImageLayout image) d4)) = Inr (rp, d7)"
    and c4: "vkCreate E KFramebuffer d7 = Inr (fb, d')"
    unfolding create_overlay_image_def
    by (auto simp: then_do_Inr RDCASSERT_Inr case_prod_beta simp del: prod.collapse)
  let ?d5 = "vk_unchecked E (SetImageLayout image) d4"
  let ?d6 = "vk_unchecked E (CmdPipelineBarrier cmd image) ?d5"
  have "unchanged d d1" using vkCreate_unchanged[OF c1] by (simp add: other_kinds)
  moreover have "unchanged d1 d2" by (rule alloc_overlay_memory_unchanged[OF a])
  moreover have "unchanged d2 d3" by (rule vk_checked_unchanged[OF b])
  moreover have "unchanged d3 d4" using vkCreate_unchanged[OF c2] by (simp add: other_kinds)
  moreover have "unchanged d4 ?d5" "unchanged ?d5 ?d6" by (rule vk_unchecked_unchanged)+
  moreover have "unchanged ?d6 d7" using vkCreate_unchanged[OF c3] by (simp add: other_kinds)
  moreover have "unchanged d7 d'" using vkCreate_unchanged[OF c4] by (simp add: other_kinds)
  ultimately show ?thesis by (blast intro: unchanged_trans)
qed

lemma PatchFixedColShader_kept:
  assumes "PatchFixedColShader K E col (d, lg) = Inr (module, shad, d', lg')"
  shows "objects d' = insert (KShader, shad) (insert (KShaderModule, module) (objects d)) \<and>
         renderPassActive d' = renderPassActive d"
proof -
  from assms obtain d1 where c1: "vkCreate E KShaderModule d = Inr (module, d1)"
    and c2: "vkCreate E KShader d1 = Inr (shad, d')"
    by (auto simp: PatchFixedColShader_def then_do_Inr)
  show ?thesis
    using vkCreate_kept[OF c1] vkCreate_kept[OF c2] by simp
qed

lemma replay_call_kept:
  "objects (replay_call f d) = objects d" "renderPassActive (replay_call f d) = renderPassActive d"
  by (simp_all add: replay_call_def split: prod.splits)

lemma next_cmd_snd_kept:
  "objects (snd (next_cmd E d)) = objects d"
  "renderPassActive (snd (next_cmd E d)) = renderPassActive d"
  by (simp_all add: next_cmd_def split: prod.splits)

lemma overlay_drawcall_kept:
  assumes "overlay_drawcall K E m overlay frameID eventID cmd (d, lg) = Inr (cmd', d', lg')"
  shows "state d' = state d \<and> objects d' \<subseteq> objects d \<and> renderPassActive d' = renderPassActive d"
  using assms unfolding overlay_drawcall_def Let_def
  by (clarsimp simp: then_do_Inr case_prod_beta vkDestroy_kept vk_unchecked_kept
        dest!: PatchFixedColShader_kept vk_checked_kept vkCreate_kept)
     (auto simp: next_cmd_snd_kept replay_call_kept vk_unchecked_kept)

lemma overlay_backface_kept:
  assumes "overlay_backface K E m frameID eventID cmd (d, lg) = Inr (cmd', d', lg')"
  shows "state d' = state d \<and> objects d' \<subseteq> objects d \<and> renderPassActive d' = renderPassActive d"
  using assms unfolding overlay_backface_def Let_def
  by (clarsimp simp: then_do_Inr case_prod_beta vkDestroy_kept vk_unchecked_kept
        dest!: PatchFixedColShader_kept vk_checked_kept vkCreate_kept)
     (auto simp: next_cmd_snd_kept replay_call_kept vk_unchecked_kept)

lemma objects_subset_ephemeral: "objects d' \<subseteq> objects d \<Longrightarrow> ephemeral d' \<subseteq> ephemeral d"
  by (auto simp: ephemeral_def)

text \<open>
  Claim C1. For the drawcall, wireframe and backface-cull overlays, when \<^verbatim>\<open>RenderOverlay\<close>
  returns, the shared replay state is the state from before the call, whatever the
  replayed draw, the submit and the flush did to it, and every pipeline, shader module
  and shader that exists on the device existed before the call: the ones created for the
  request have been destroyed.
\<close>

theorem RenderOverlay_restores_state:
  assumes ov: "overlay = eTexOverlay_Drawcall \<or> overlay = eTexOverlay_Wireframe
             \<or> overlay = eTexOverlay_BackfaceCull"
    and ret: "RenderOverlay K E other extent overlay frameID eventID (m, d, lg) = Inr (rid, m', d', lg')"
  shows "state d' = state d \<and> ephemeral d' \<subseteq> ephemeral d"
proof -
  obtain cmd d1 where n: "next_cmd E d = (cmd, d1)" by (cases "next_cmd E d")
  from ret n obtain d2 where b: "vk_checked E (BeginCommandBuffer cmd) d1 = Inr d2"
    by (auto simp: RenderOverlay_def then_do_Inr)
  obtain m1 df where f: "free_overlay_image E extent (m, d2) = (m1, df)"
    by (cases "free_overlay_image E extent (m, d2)")
  from ret n b f obtain m2 d3 where c: "create_overlay_image E cmd extent (m1, df) = Inr (m2, d3)"
    by (auto simp: RenderOverlay_def then_do_Inr)
  have u3: "unchanged d d3"
    using next_cmd_unchanged[OF n] vk_checked_unchanged[OF b] free_overlay_image_unchanged[OF f]
      create_overlay_image_unchanged[OF c]
    by (blast intro: unchanged_trans)
  let ?clear = "vk_unchecked E (CmdClearColorImage cmd (m_OverlayImage m2) (0, 0, 0, 0)) d3"
  let ?branch = "if \<not> renderPassActive d3 then Inr (cmd, ?clear, lg)
      else if overlay = eTexOverlay_Drawcall \<or> overlay = eTexOverlay_Wireframe
      then overlay_drawcall K E m2 overlay frameID eventID cmd (d3, lg)
      else overlay_backface K E m2 frameID eventID cmd (d3, lg)"
  from ret n b f c ov obtain cmd' d4 where br: "?branch = Inr (cmd', d4, lg')"
    and e: "vk_checked E (EndCommandBuffer cmd') d4 = Inr d'"
    by (auto simp: RenderOverlay_def then_do_Inr split: if_splits)
  have k4: "state d4 = state d3 \<and> objects d4 \<subseteq> objects d3"
  proof (cases "renderPassActive d3")
    case False
    then show ?thesis using br by (auto simp: vk_unchecked_kept)
  next
    case True
    then show ?thesis
      using br overlay_drawcall_kept[of K E m2 overlay frameID eventID cmd d3 lg cmd' d4 lg']
        overlay_backface_kept[of K E m2 frameID eventID cmd d3 lg cmd' d4 lg']
      by (auto split: if_splits)
  qed
  have "state d' = state d4" "ephemeral d' = ephemeral d4"
    using vk_checked_unchanged[OF e] by (simp_all add: unchanged_def)
  moreover have "state d3 = state d" "ephemeral d3 = ephemeral d"
    using u3 by (simp_all add: unchanged_def)
  ultimately show ?thesis
    using k4 objects_subset_ephemeral[of d4 d3] by auto
qed


text \<open>
  Witness for C1: a wireframe overlay on the example driver. The replayed draw overwrites
  the bound pipeline and clears the scissors; after the call the state is the one from
  before, and of the pipelines and shaders only the pipeline 500 that existed before is
  left.
\<close>

theorem RenderOverlay_restores_state_witness:
  "RenderOverlay spv10 ex_iface ex_other (4, 4) eTexOverlay_Wireframe 0 0
     (ex_manager, ex_driver, [])
   = Inr (1002,
          \<lparr>m_OverlayImage = 2, m_OverlayImageView = 4, m_OverlayNoDepthRP = 5,
            m_OverlayNoDepthFB = 6, m_OverlayImageMem = 3,
            m_OverlayMemSize = 4096, m_OverlayDim = (4, 4)\<rparr>, ex_driver_after 12, []) \<and>
   state (ex_driver_after 12) = state ex_driver \<and>
   ephemeral (ex_driver_after 12) \<subseteq> ephemeral ex_driver"
proof -
  have p: "PatchFixedColShader_spirv K [0x07230203, 0x00010000, 0, 20, 0] col lg
             = Inr ([0x07230203, 0x00010000, 0, 20, 0], lg)" for K col lg
    by (simp add: PatchFixedColShader_spirv_def patch_loop.simps)
  have run: "RenderOverlay spv10 ex_iface ex_other (4, 4) eTexOverlay_Wireframe 0 0
               (ex_manager, ex_driver, [])
             = Inr (1002,
                    \<lparr>m_OverlayImage = 2, m_OverlayImageView = 4, m_OverlayNoDepthRP = 5,
                      m_OverlayNoDepthFB = 6, m_OverlayImageMem = 3,
                      m_OverlayMemSize = 4096, m_OverlayDim = (4, 4)\<rparr>, ex_driver_after 12, [])"
    by (auto simp: RenderOverlay_def ex_iface_def ex_manager_def ex_driver_def ex_driver_after_def
        next_cmd_def vk_checked_def vk_unchecked_def vkCreate_def vkDestroy_def replay_call_def
        RDCASSERT_def then_do_def free_overlay_image_def create_overlay_image_def
        alloc_overlay_memory_def overlay_drawcall_def PatchFixedColShader_def p
        modify_state_def VK_NULL_HANDLE_def Let_def)
  show ?thesis
    using RenderOverlay_restores_state[OF _ run] run by simp
qed

section \<open>Output dumping\<close>

lemma res_sat_Inr: "res_sat F Q (Inr x) = Q x"
  by (simp add: res_sat_def)

lemma res_sat_Inl: "res_sat F Q (Inl e) = F e"
  by (simp add: res_sat_def)

lemma res_sat_then_do:
  assumes "res_sat F Q m" and "\<And>x. Q x \<Longrightarrow> res_sat F R (f x)"
  shows "res_sat F R (then_do m f)"
  using assms by (cases m) (simp_all add: res_sat_def then_do_def)

lemma res_sat_weaken:
  assumes "res_sat F Q r" and "\<And>x. Q x \<Longrightarrow> Q' x"
  shows "res_sat F Q' r"
  using assms by (cases r) (simp_all add: res_sat_def)

lemma res_sat_RDCASSERT:
  assumes "c \<Longrightarrow> res_sat outs_in_bounds Q k"
  shows "res_sat outs_in_bounds Q (RDCASSERT c msg k)"
  using assms by (simp add: RDCASSERT_def res_sat_def outs_in_bounds_def)

lemma res_sat_for_each:
  assumes "\<And>i s j. i \<in> set xs \<Longrightarrow> I j s \<Longrightarrow> res_sat F (I (Suc j)) (body i s)" and "I j s"
  shows "res_sat F (I (j + length xs)) (for_each xs body s)"
  using assms
proof (induction xs arbitrary: j s)
  case Nil
  then show ?case by (simp add: res_sat_def)
next
  case (Cons x xs)
  have b: "res_sat F (I (Suc j)) (body x s)" using Cons.prems by simp
  show ?case
  proof (cases "body x s")
    case (Inl e)
    then show ?thesis using b by (simp add: res_sat_def)
  next
    case (Inr s')
    then have "I (Suc j) s'" using b by (simp add: res_sat_def)
    then have "res_sat F (I (Suc j + length xs)) (for_each xs body s')"
      using Cons.IH[of "Suc j" s'] Cons.prems(1) by simp
    then show ?thesis using Inr by simp
  qed
qed

lemma res_sat_for_each_inv:
  assumes "\<And>i s. i \<in> set xs \<Longrightarrow> I s \<Longrightarrow> res_sat F I (body i s)" and "I s"
  shows "res_sat F I (for_each xs body s)"
  using res_sat_for_each[of xs "\<lambda>j. I" F body 0 s] assms by simp

lemma get_out_sat:
  "i < length (outs st) \<Longrightarrow> res_sat outs_in_bounds (\<lambda>o_i. o_i = outs st ! i) (get_out st i)"
  by (simp add: get_out_def res_sat_def)

lemma upd_out_sat:
  "i < length (outs st) \<Longrightarrow>
   res_sat outs_in_bounds (\<lambda>st'. st' = st\<lparr>outs := (outs st)[i := f (outs st ! i)]\<rparr>) (upd_out i f st)"
  by (simp add: upd_out_def res_sat_def)

lemma rd_sat: "res_sat outs_in_bounds (\<lambda>w. True) (rd spirv i)"
  by (simp add: rd_def res_sat_def outs_in_bounds_def)

subsection \<open>The allocation of identifiers\<close>

lemma declared_ids_append: "declared_ids (xs @ ys) = declared_ids xs @ declared_ids ys"
  by (induction xs rule: declared_ids.induct) simp_all

lemma declared_ids_decorations: "declared_ids (map NewDecoration ds) = []"
  by (induction ds) simp_all

lemma carries_id_decorations: "list_all carries_id (map NewDecoration ds)"
  by (induction ds) (simp_all add: carries_id_def)

lemma alloc_inv_mono: "alloc_inv b k st \<Longrightarrow> k \<le> k' \<Longrightarrow> alloc_inv b k' st"
  by (simp add: alloc_inv_def)

lemma alloc_inv_outs: "alloc_inv b k st \<Longrightarrow> length (outs st) = 100"
  by (simp add: alloc_inv_def)

lemma insert_decl_inv:
  assumes "alloc_inv b k st0" and "inserted st = inserted st0" and "idBound st = idBound st0 + 1"
    and "length (outs st) = 100"
    and "carries_id (NewDecl (idBound st0) ws)"
  shows "res_sat outs_in_bounds (alloc_inv b (Suc k)) (insert_decl (idBound st0) ws st)"
proof (cases "typeVarOffset st \<le> length (modSpirv st)")
  case False
  then show ?thesis
    by (simp add: insert_decl_def insert_words_def then_do_def res_sat_def outs_in_bounds_def)
next
  case True
  let ?n = "length (declared_ids (inserted st0))"
  have "map (\<lambda>j. b + of_nat j) [0..<Suc ?n] = map (\<lambda>j. b + of_nat j) [0..<?n] @ [b + of_nat ?n]"
    by simp
  then show ?thesis
    using assms True
    by (simp add: insert_decl_def insert_words_def then_do_def res_sat_def alloc_inv_def
        declared_ids_append)
qed

lemma insert_decorations_inv:
  assumes "alloc_inv b k st0" and "inserted st = inserted st0" and "idBound st = idBound st0"
    and "length (outs st) = 100"
  shows "res_sat outs_in_bounds (alloc_inv b k) (insert_decorations ds st)"
  using assms
  by (simp add: insert_decorations_def insert_words_def then_do_def res_sat_def alloc_inv_def
      declared_ids_append declared_ids_decorations carries_id_decorations outs_in_bounds_def)

lemma declare_sint32_inv:
  assumes "alloc_inv b k st"
  shows "res_sat outs_in_bounds (alloc_inv b (Suc k)) (declare_sint32 K st)"
proof (cases "sint32ID st = 0")
  case False
  then show ?thesis
    using alloc_inv_mono[OF assms, of "Suc k"] by (simp add: declare_sint32_def res_sat_def)
next
  case True
  then show ?thesis
    using insert_decl_inv[OF assms, of "st\<lparr>idBound := idBound st + 1, sint32ID := idBound st\<rparr>"
        "[MakeSPIRVOp K (OpTypeInt K) 4, idBound st, 32, 1]"] alloc_inv_outs[OF assms]
    by (simp add: declare_sint32_def next_id_def carries_id_def)
qed

lemma declare_sint32PtrIn_inv:
  assumes "alloc_inv b k st"
  shows "res_sat outs_in_bounds (alloc_inv b (Suc k)) (declare_sint32PtrIn K st)"
proof (cases "sint32PtrInID st = 0")
  case False
  then show ?thesis
    using alloc_inv_mono[OF assms, of "Suc k"] by (simp add: declare_sint32PtrIn_def res_sat_def)
next
  case True
  then show ?thesis
    using insert_decl_inv[OF assms, of "st\<lparr>idBound := idBound st + 1, sint32PtrInID := idBound st\<rparr>"
        "[MakeSPIRVOp K (OpTypePointer K) 4, idBound st, StorageClassInput K, sint32ID st]"]
      alloc_inv_outs[OF assms]
    by (simp add: declare_sint32PtrIn_def next_id_def carries_id_def)
qed

lemma declare_vertidx_inv:
  assumes "alloc_inv b k st"
  shows "res_sat outs_in_bounds (alloc_inv b (k + 3)) (declare_vertidx K st)"
proof (cases "vertidxID st = 0")
  case False
  then show ?thesis
    using alloc_inv_mono[OF assms, of "k + 3"] by (simp add: declare_vertidx_def res_sat_def)
next
  case True
  have var: "res_sat outs_in_bounds (alloc_inv b (k + 3))
        (case next_id st2 of (i, st3) \<Rightarrow>
          then_do (insert_decl i [MakeSPIRVOp K (OpVariable K) 4, sint32PtrInID st3, i, StorageClassInput K]
                   (st3\<lparr>vertidxID := i\<rparr>)) (\<lambda>st4.
          insert_decorations
            [[MakeSPIRVOp K (OpDecorate K) 4, vertidxID st4, DecorationBuiltIn K, BuiltInVertexId K]] st4))"
    if i2: "alloc_inv b (Suc (Suc k)) st2" for st2
  proof -
    have "res_sat outs_in_bounds (alloc_inv b (Suc (Suc (Suc k))))
            (insert_decl (idBound st2)
               [MakeSPIRVOp K (OpVariable K) 4, sint32PtrInID st2, idBound st2, StorageClassInput K]
               (st2\<lparr>idBound := idBound st2 + 1, vertidxID := idBound st2\<rparr>))"
      using insert_decl_inv[OF i2, of "st2\<lparr>idBound := idBound st2 + 1, vertidxID := idBound st2\<rparr>"
          "[MakeSPIRVOp K (OpVariable K) 4, sint32PtrInID st2, idBound st2, StorageClassInput K]"]
        alloc_inv_outs[OF i2]
      by (simp add: carries_id_def)
    then have "res_sat outs_in_bounds (alloc_inv b (Suc (Suc (Suc k))))
            (then_do (insert_decl (idBound st2)
               [MakeSPIRVOp K (OpVariable K) 4, sint32PtrInID st2, idBound st2, StorageClassInput K]
               (st2\<lparr>idBound := idBound st2 + 1, vertidxID := idBound st2\<rparr>)) (\<lambda>st4.
          insert_decorations
            [[MakeSPIRVOp K (OpDecorate K) 4, vertidxID st4, DecorationBuiltIn K, BuiltInVertexId K]] st4))"
      by (rule res_sat_then_do) (rule insert_decorations_inv, simp_all add: alloc_inv_outs)
    then show ?thesis by (simp add: next_id_def numeral_3_eq_3)
  qed
  have "res_sat outs_in_bounds (alloc_inv b (k + 3))
         (then_do (declare_sint32 K st) (\<lambda>st1.
          then_do (declare_sint32PtrIn K st1) (\<lambda>st2.
          case next_id st2 of (i, st3) \<Rightarrow>
          then_do (insert_decl i [MakeSPIRVOp K (OpVariable K) 4, sint32PtrInID st3, i, StorageClassInput K]
                   (st3\<lparr>vertidxID := i\<rparr>)) (\<lambda>st4.
          insert_decorations
            [[MakeSPIRVOp K (OpDecorate K) 4, vertidxID st4, DecorationBuiltIn K, BuiltInVertexId K]] st4))))"
    by (rule res_sat_then_do[OF declare_sint32_inv[OF assms]],
        rule res_sat_then_do[OF declare_sint32PtrIn_inv], assumption, rule var)
  then show ?thesis using True by (simp add: declare_vertidx_def)
qed

lemma declare_uint32_inv:
  assumes "alloc_inv b k st"
  shows "res_sat outs_in_bounds (alloc_inv b (Suc k)) (declare_uint32 K st)"
proof (cases "uint32ID st = 0")
  case False
  then show ?thesis
    using alloc_inv_mono[OF assms, of "Suc k"] by (simp add: declare_uint32_def res_sat_def)
next
  case True
  then show ?thesis
    using insert_decl_inv[OF assms, of "st\<lparr>idBound := idBound st + 1, uint32ID := idBound st\<rparr>"
        "[MakeSPIRVOp K (OpTypeInt K) 4, idBound st, 32, 0]"] alloc_inv_outs[OF assms]
    by (simp add: declare_uint32_def next_id_def carries_id_def)
qed

lemma declare_constant_inv:
  assumes "alloc_inv b k st" and "i < 100"
  shows "res_sat outs_in_bounds (alloc_inv b (Suc k)) (declare_constant K i st)"
proof -
  have il: "i < length (outs st)" using assms by (simp add: alloc_inv_def)
  let ?st2 = "st\<lparr>idBound := idBound st + 1, outs := (outs st)[i := (outs st ! i)\<lparr>constID := idBound st\<rparr>]\<rparr>"
  have ins: "res_sat outs_in_bounds (alloc_inv b (Suc k))
               (insert_decl (idBound st) [MakeSPIRVOp K (OpConstant K) 4, uint32ID ?st2, idBound st, of_nat i] ?st2)"
    using insert_decl_inv[OF assms(1), of ?st2
        "[MakeSPIRVOp K (OpConstant K) 4, uint32ID ?st2, idBound st, of_nat i]"] alloc_inv_outs[OF assms(1)]
    by (simp add: carries_id_def)
  show ?thesis
    unfolding declare_constant_def
  proof (rule res_sat_then_do[OF get_out_sat[OF il]])
    fix o_i assume "o_i = outs st ! i"
    show "res_sat outs_in_bounds (alloc_inv b (Suc k))
            (if constID o_i = 0
             then case next_id st of (c, st1) \<Rightarrow>
               then_do (upd_out i (\<lambda>x. x\<lparr>constID := c\<rparr>) st1) (\<lambda>st2.
               insert_decl c [MakeSPIRVOp K (OpConstant K) 4, uint32ID st2, c, of_nat i] st2)
             else Inr st)"
    proof (cases "constID o_i = 0")
      case False
      then show ?thesis using alloc_inv_mono[OF assms(1), of "Suc k"] by (simp add: res_sat_def)
    next
      case True
      have "upd_out i (\<lambda>x. x\<lparr>constID := idBound st\<rparr>) (st\<lparr>idBound := idBound st + 1\<rparr>) = Inr ?st2"
        using il by (simp add: upd_out_def)
      then show ?thesis using True ins by (simp add: next_id_def then_do_def)
    qed
  qed
qed

lemma alloc_inv_outs_upd:
  "alloc_inv b k st \<Longrightarrow> alloc_inv b k (st\<lparr>outs := (outs st)[j := x]\<rparr>)"
  by (simp add: alloc_inv_def)

lemma share_uniform_ptr_inv:
  assumes "alloc_inv b k st" and "i < 100" and "j < 100"
  shows "res_sat outs_in_bounds (alloc_inv b k) (share_uniform_ptr i j st)"
proof -
  have il: "i < length (outs st)" and jl: "j < length (outs st)"
    using assms by (simp_all add: alloc_inv_def)
  have u: "res_sat outs_in_bounds (alloc_inv b k) (upd_out j f st)" for f
    by (rule res_sat_weaken[OF upd_out_sat[OF jl]]) (simp add: alloc_inv_outs_upd[OF assms(1)])
  show ?thesis
    unfolding share_uniform_ptr_def
    by (rule res_sat_then_do[OF get_out_sat[OF il]], rule res_sat_then_do[OF get_out_sat[OF jl]])
       (auto intro!: res_sat_RDCASSERT u simp: res_sat_Inr assms(1))
qed

lemma declare_uniform_ptr_inv:
  assumes "alloc_inv b k st" and "i < 100" and "n \<le> 100"
  shows "res_sat outs_in_bounds (alloc_inv b (Suc k)) (declare_uniform_ptr K n i st)"
proof -
  have il: "i < length (outs st)" using assms by (simp add: alloc_inv_def)
  let ?st2 = "st\<lparr>idBound := idBound st + 1,
                  outs := (outs st)[i := (outs st ! i)\<lparr>uniformPtrID := idBound st\<rparr>]\<rparr>"
  let ?ws = "[MakeSPIRVOp K (OpTypePointer K) 4, idBound st, StorageClassUniform K,
              basetypeID (outs st ! i)]"
  have ins: "res_sat outs_in_bounds (alloc_inv b (Suc k)) (insert_decl (idBound st) ?ws ?st2)"
    using insert_decl_inv[OF assms(1), of ?st2 ?ws] alloc_inv_outs[OF assms(1)]
    by (simp add: carries_id_def)
  have loop: "res_sat outs_in_bounds (alloc_inv b (Suc k))
                (for_each [i + 1..<n] (share_uniform_ptr i) st3)"
    if "alloc_inv b (Suc k) st3" for st3
  proof (rule res_sat_for_each_inv[where I = "alloc_inv b (Suc k)"])
    show "alloc_inv b (Suc k) st3" by (rule that)
  next
    fix j s assume "j \<in> set [i + 1..<n]" and s: "alloc_inv b (Suc k) s"
    then have "j < 100" using assms(3) by simp
    then show "res_sat outs_in_bounds (alloc_inv b (Suc k)) (share_uniform_ptr i j s)"
      using share_uniform_ptr_inv[OF s assms(2)] by simp
  qed
  have u: "upd_out i (\<lambda>x. x\<lparr>uniformPtrID := idBound st\<rparr>) (st\<lparr>idBound := idBound st + 1\<rparr>) = Inr ?st2"
    using il by (simp add: upd_out_def)
  show ?thesis
    unfolding declare_uniform_ptr_def
  proof (rule res_sat_then_do[OF get_out_sat[OF il]])
    fix o_i assume o: "o_i = outs st ! i"
    show "res_sat outs_in_bounds (alloc_inv b (Suc k))
            (if uniformPtrID o_i = 0
             then case next_id st of (p, st1) \<Rightarrow>
               then_do (upd_out i (\<lambda>x. x\<lparr>uniformPtrID := p\<rparr>) st1) (\<lambda>st2.
               then_do (insert_decl p [MakeSPIRVOp K (OpTypePointer K) 4, p, StorageClassUniform K,
                                        basetypeID o_i] st2) (\<lambda>st3.
               for_each [i + 1..<n] (share_uniform_ptr i) st3))
             else Inr st)"
    proof (cases "uniformPtrID o_i = 0")
      case False
      then show ?thesis using alloc_inv_mono[OF assms(1), of "Suc k"] by (simp add: res_sat_def)
    next
      case True
      have "res_sat outs_in_bounds (alloc_inv b (Suc k))
              (then_do (insert_decl (idBound st) ?ws ?st2) (\<lambda>st3.
                 for_each [i + 1..<n] (share_uniform_ptr i) st3))"
        by (rule res_sat_then_do[OF ins]) (rule loop)
      then show ?thesis using True u o by (simp add: next_id_def then_do_def)
    qed
  qed
qed

lemma struct_words_sat:
  assumes "length (outs st) = 100" and "set xs \<subseteq> {0..<100}"
  shows "res_sat outs_in_bounds (\<lambda>(ws', st'). st' = st \<and> length ws' = length ws + length xs \<and>
            take (length ws) ws' = ws)
           (for_each xs (\<lambda>i ws_st. case ws_st of (ws, st) \<Rightarrow>
                    then_do (get_out st i) (\<lambda>o_i. Inr (ws @ [basetypeID o_i], st))) (ws, st))"
  using assms
proof (induction xs arbitrary: ws)
  case Nil
  then show ?case by (simp add: res_sat_def)
next
  case (Cons x xs)
  have xl: "x < length (outs st)" using Cons.prems by simp
  have step: "(case (ws, st) of (ws, st) \<Rightarrow>
                 then_do (get_out st x) (\<lambda>o_i. Inr (ws @ [basetypeID o_i], st)))
              = Inr (ws @ [basetypeID (outs st ! x)], st)"
    using xl by (simp add: get_out_def then_do_def)
  have "res_sat outs_in_bounds (\<lambda>(ws', st'). st' = st \<and>
            length ws' = length (ws @ [basetypeID (outs st ! x)]) + length xs \<and>
            take (length (ws @ [basetypeID (outs st ! x)])) ws' = ws @ [basetypeID (outs st ! x)])
           (for_each xs (\<lambda>i ws_st. case ws_st of (ws, st) \<Rightarrow>
                    then_do (get_out st i) (\<lambda>o_i. Inr (ws @ [basetypeID o_i], st)))
              (ws @ [basetypeID (outs st ! x)], st))"
    using Cons.IH[of "ws @ [basetypeID (outs st ! x)]"] Cons.prems by simp
  then have "res_sat outs_in_bounds (\<lambda>(ws', st'). st' = st \<and>
            length ws' = length ws + length (x # xs) \<and> take (length ws) ws' = ws)
           (for_each xs (\<lambda>i ws_st. case ws_st of (ws, st) \<Rightarrow>
                    then_do (get_out st i) (\<lambda>o_i. Inr (ws @ [basetypeID o_i], st)))
              (ws @ [basetypeID (outs st ! x)], st))"
  proof (rule res_sat_weaken, goal_cases)
    case (1 r)
    obtain ws' st' where r: "r = (ws', st')" by (cases r)
    from 1 r have a: "st' = st" "length ws' = Suc (length ws) + length xs"
      "take (Suc (length ws)) ws' = ws @ [basetypeID (outs st ! x)]" by simp_all
    have "take (length ws) ws' = take (length ws) (take (Suc (length ws)) ws')" by simp
    also have "\<dots> = ws" unfolding a(3) by simp
    finally show ?case using a r by simp
  qed
  then show ?case by (simp only: for_each.simps step sum.case)
qed

lemma alloc_step:
  assumes inv: "alloc_inv b k st" and car: "carries_id (NewDecl (idBound st) ws)"
    and rest: "\<And>st'. alloc_inv b (Suc k) st' \<Longrightarrow> res_sat outs_in_bounds Q (g st')"
  shows "res_sat outs_in_bounds Q
           (then_do (insert_decl (idBound st) ws (st\<lparr>idBound := idBound st + 1\<rparr>)) g)"
  by (rule res_sat_then_do[OF insert_decl_inv[OF inv _ _ _ car]])
     (simp_all add: alloc_inv_outs[OF inv] rest)

lemma declare_output_buffer_inv:
  assumes inv: "alloc_inv b k st" and n: "length sig \<le> 100"
  shows "res_sat outs_in_bounds (alloc_inv b (k + 5)) (declare_output_buffer K sig st)"
proof -
  let ?st1 = "st\<lparr>idBound := idBound st + 1\<rparr>"
  have words: "res_sat outs_in_bounds
      (\<lambda>(ws', st'). st' = ?st1 \<and> length ws' = 2 + length [0..<length sig] \<and>
          take 2 ws' = [MakeSPIRVOp K (OpTypeStruct K) (of_nat (2 + length sig)), idBound st])
      (for_each [0..<length sig]
         (\<lambda>i ws_st. case ws_st of (ws, st) \<Rightarrow>
            then_do (get_out st i) (\<lambda>o_i. Inr (ws @ [basetypeID o_i], st)))
         ([MakeSPIRVOp K (OpTypeStruct K) (of_nat (2 + length sig)), idBound st], ?st1))"
    using struct_words_sat[of ?st1 "[0..<length sig]"
        "[MakeSPIRVOp K (OpTypeStruct K) (of_nat (2 + length sig)), idBound st]"]
      alloc_inv_outs[OF inv] n
    by (simp add: subset_iff numeral_2_eq_2)
  have last: "res_sat outs_in_bounds (alloc_inv b (k + 5)) (insert_decorations ds (st11\<lparr>messages := lg\<rparr>))"
    if "alloc_inv b (k + 5) st11" for st11 ds lg
    by (rule insert_decorations_inv[OF that]) (simp_all add: alloc_inv_outs[OF that])
  have k5: "Suc (Suc (Suc (Suc (Suc k)))) = k + 5" by simp
  show ?thesis
    unfolding declare_output_buffer_def Let_def next_id_def prod.case
  proof (rule res_sat_then_do[OF words], clarsimp simp del: upt_Suc)
    fix ws'
    assume l: "length ws' = Suc (Suc (length sig))"
      and t: "take 2 ws' = [MakeSPIRVOp K (OpTypeStruct K) (2 + of_nat (length sig)), idBound st]"
    have "ws' ! 1 = take 2 ws' ! 1" by simp
    then have c: "carries_id (NewDecl (idBound st) ws')"
      using l t by (simp add: carries_id_def)
    show "res_sat outs_in_bounds (alloc_inv b (k + 5))
        (then_do (insert_decl (idBound st) ws' ?st1) (\<lambda>st3.
         then_do (insert_decl (idBound st3)
                 [MakeSPIRVOp K (OpTypeRuntimeArray K) 3, idBound st3, idBound st]
                 (st3\<lparr>idBound := idBound st3 + 1\<rparr>)) (\<lambda>st5.
         then_do (insert_decl (idBound st5)
                 [MakeSPIRVOp K (OpTypeStruct K) 3, idBound st5, idBound st3]
                 (st5\<lparr>idBound := idBound st5 + 1\<rparr>)) (\<lambda>st7.
         then_do (insert_decl (idBound st7)
                 [MakeSPIRVOp K (OpTypePointer K) 4, idBound st7, StorageClassUniform K,
                  idBound st5] (st7\<lparr>idBound := idBound st7 + 1\<rparr>)) (\<lambda>st9.
         then_do (insert_decl (idBound st9)
                 [MakeSPIRVOp K (OpVariable K) 4, idBound st7, idBound st9,
                  StorageClassUniform K] (st9\<lparr>idBound := idBound st9 + 1\<rparr>)) (\<lambda>st11.
         case fold (member_decoration K sig (idBound st)) [0..<length sig] ([], 0, messages st11) of
           (ds, memberOffset, lg) \<Rightarrow>
             insert_decorations
               (ds @
                [[MakeSPIRVOp K (OpMemberDecorate K) 5, idBound st5, 0, DecorationOffset K, 0],
                 [MakeSPIRVOp K (OpDecorate K) 4, idBound st3, DecorationArrayStride K, memberOffset],
                 [MakeSPIRVOp K (OpDecorate K) 3, idBound st5, DecorationBufferBlock K],
                 [MakeSPIRVOp K (OpDecorate K) 4, idBound st9, DecorationDescriptorSet K,
                  maxDescSetBind st11 + 1],
                 [MakeSPIRVOp K (OpDecorate K) 4, idBound st9, DecorationBinding K, 0]])
               (st11\<lparr>messages := lg\<rparr>)))))))"
      apply (rule alloc_step[OF inv c])
      apply (rule alloc_step, assumption, simp add: carries_id_def)
      apply (rule alloc_step, assumption, simp add: carries_id_def)
      apply (rule alloc_step, assumption, simp add: carries_id_def)
      apply (rule alloc_step, assumption, simp add: carries_id_def)
      apply (simp only: k5 split: prod.split)
      apply (intro allI impI last)
      apply assumption
      done
  qed
qed

subsection \<open>Accesses to the array of outputs\<close>

lemma then_do_inv:
  assumes "res_sat F Q m" and "\<And>x. Q x \<Longrightarrow> res_sat F Q (f x)"
  shows "res_sat F Q (then_do m f)"
  using assms by (rule res_sat_then_do)

lemma then_do_get_out:
  assumes "i < length (outs st)" and "res_sat outs_in_bounds R (f (outs st ! i))"
  shows "res_sat outs_in_bounds R (then_do (get_out st i) f)"
  using assms by (simp add: get_out_def then_do_def)

lemma then_do_rd:
  assumes "\<And>w. res_sat outs_in_bounds R (f w)"
  shows "res_sat outs_in_bounds R (then_do (rd spirv i) f)"
  using assms by (simp add: rd_def then_do_def res_sat_def outs_in_bounds_def)

lemma upd_out_inv:
  assumes "i < length (outs st)" and "Q (st\<lparr>outs := (outs st)[i := f (outs st ! i)]\<rparr>)"
  shows "res_sat outs_in_bounds Q (upd_out i f st)"
  using assms by (simp add: upd_out_def res_sat_def)

lemma cond_Inr: "res_sat F (\<lambda>_. True) (Inr t)"
  by (simp add: res_sat_def)

lemma cond_word_is: "res_sat outs_in_bounds (\<lambda>_. True) (word_is spirv i v)"
  by (simp add: word_is_def rd_def then_do_def res_sat_def outs_in_bounds_def)

lemma cond_c_and:
  assumes "res_sat F (\<lambda>_. True) a" and "res_sat F (\<lambda>_. True) c"
  shows "res_sat F (\<lambda>_. True) (c_and a c)"
  using assms by (cases a) (simp_all add: c_and_def res_sat_def)

lemma when_c_inv:
  assumes "res_sat F (\<lambda>_. True) c" and "Q st" and "res_sat F Q (body st)"
  shows "res_sat F Q (when_c c body st)"
  using assms by (cases c) (simp_all add: when_c_def res_sat_def)

lemma note_id_inv:
  assumes "\<And>w s. Q s \<Longrightarrow> Q (assign w s)" and "\<And>e s. Q s \<Longrightarrow> Q (warn e s)" and "Q st"
  shows "res_sat outs_in_bounds Q (note_id spirv it current assign msg st)"
  unfolding note_id_def
  by (rule then_do_rd) (simp add: res_sat_def assms)

lemma outs_warn: "outs (warn e st) = outs st"
  by (simp add: warn_def)

lemma outs_base_type_id: "outs (snd (base_type_id t st)) = outs st"
  by (simp add: base_type_id_def outs_warn)

lemma scan_output_inv:
  assumes "length (outs st) = 100" and "i < 100"
  shows "res_sat outs_in_bounds (\<lambda>s. length (outs s) = 100) (scan_output K spirv it i p st)"
  unfolding scan_output_def Let_def
  apply (intro then_do_inv when_c_inv cond_c_and cond_Inr cond_word_is)
            apply (simp_all add: assms case_prod_beta)
    apply (intro then_do_get_out then_do_rd upd_out_inv; simp add: assms outs_warn)
   apply (intro when_c_inv cond_c_and cond_Inr cond_word_is then_do_get_out then_do_rd upd_out_inv;
      simp add: assms outs_warn outs_base_type_id)
  apply (intro then_do_get_out when_c_inv cond_c_and cond_Inr cond_word_is then_do_rd upd_out_inv;
      simp add: assms outs_warn)
  done

lemma scan_instruction_inv:
  assumes "length (outs st) = 100" and "length sig \<le> 100"
  shows "res_sat outs_in_bounds (\<lambda>s. length (outs s) = 100) (scan_instruction K sig spirv it st)"
  unfolding scan_instruction_def Let_def
  apply (intro then_do_inv when_c_inv cond_c_and cond_Inr cond_word_is note_id_inv
      res_sat_for_each_inv[where I = "\<lambda>s. length (outs s) = 100"] scan_output_inv then_do_rd)
  using assms apply (simp_all add: outs_warn res_sat_Inr)
  done

lemma scan_loop_inv:
  assumes "length (outs st) = 100" and "length sig \<le> 100"
  shows "res_sat outs_in_bounds (\<lambda>s. length (outs s) = 100) (scan_loop K sig spirv it st)"
  using assms
proof (induction K sig spirv it st rule: scan_loop.induct)
  case (1 K sig spirv it st)
  show ?case
  proof (cases "it < length spirv")
    case False
    then show ?thesis using "1.prems" by (simp add: res_sat_def)
  next
    case True
    note si = scan_instruction_inv[OF "1.prems", of K spirv it]
    show ?thesis
    proof (cases "scan_instruction K sig spirv it st")
      case (Inl e)
      then show ?thesis using True si by (simp add: res_sat_def)
    next
      case (Inr st')
      then have l: "length (outs st') = 100" using si by (simp add: res_sat_def)
      show ?thesis
      proof (cases "opcode K (spirv ! it) = OpFunction K \<or> WordCount K (spirv ! it) = 0")
        case True
        then show ?thesis using \<open>it < length spirv\<close> Inr l
          by (auto simp: res_sat_def outs_in_bounds_def)
      next
        case False
        then show ?thesis
          using "1.IH"[OF \<open>it < length spirv\<close> Inr _ _ l "1.prems"(2)] \<open>it < length spirv\<close> Inr
          by simp
      qed
    qed
  qed
qed

lemma alloc_inv_warn: "alloc_inv b k st \<Longrightarrow> alloc_inv b k (warn e st)"
  by (simp add: alloc_inv_def warn_def)

lemma alloc_inv_base_type_id: "alloc_inv b k st \<Longrightarrow> alloc_inv b k (snd (base_type_id t st))"
  by (simp add: base_type_id_def alloc_inv_warn)

lemma scalar_output_inv:
  assumes "alloc_inv b k st" and "i < 100"
  shows "res_sat outs_in_bounds (alloc_inv b k) (scalar_output sig i st)"
proof -
  have il: "i < length (outs s)" if "alloc_inv b k s" for s
    using that assms(2) by (simp add: alloc_inv_def)
  have first: "res_sat outs_in_bounds (alloc_inv b k)
     (if sig_compCount (sig ! i) = 1
      then (case base_type_id (sig_compType (sig ! i)) st of (baseID, st') \<Rightarrow>
              if sig_compType (sig ! i) \<in> {eCompType_UInt, eCompType_SInt, eCompType_Float,
                                            eCompType_Double}
              then upd_out i (\<lambda>x. x\<lparr>basetypeID := baseID\<rparr>) st'
              else Inr st')
      else Inr st)"
    using assms(1) alloc_inv_base_type_id[OF assms(1), of "sig_compType (sig ! i)"]
      il[OF alloc_inv_base_type_id[OF assms(1), of "sig_compType (sig ! i)"]]
    by (auto simp: case_prod_beta res_sat_Inr intro!: upd_out_inv alloc_inv_outs_upd)
  show ?thesis
    unfolding scalar_output_def
    by (rule then_do_inv[OF first], rule then_do_get_out, erule il)
       (auto intro!: res_sat_RDCASSERT simp: res_sat_Inr)
qed

lemma constants_loop_inv:
  assumes a: "alloc_inv b k s" and n: "length sig < 100"
  shows "res_sat outs_in_bounds (alloc_inv b (k + length sig))
              (for_each [0..<length sig] (declare_constant K) s)"
proof -
  have "res_sat outs_in_bounds (alloc_inv b (k + (0 + length [0..<length sig])))
            (for_each [0..<length sig] (declare_constant K) s)"
  proof (rule res_sat_for_each[where I = "\<lambda>j. alloc_inv b (k + j)"])
    show "alloc_inv b (k + 0) s" using a by simp
  next
    fix i s j assume i: "i \<in> set [0..<length sig]" and s: "alloc_inv b (k + j) s"
    have "i < 100" using i n by simp
    from declare_constant_inv[OF s this, of K]
    show "res_sat outs_in_bounds (alloc_inv b (k + Suc j)) (declare_constant K i s)"
      by (simp only: add_Suc_right)
  qed
  then show ?thesis by (simp only: add_0 length_upt diff_zero)
qed

lemma uniform_ptr_loop_inv:
  assumes a: "alloc_inv b k s" and n: "length sig < 100"
  shows "res_sat outs_in_bounds (alloc_inv b (k + length sig))
              (for_each [0..<length sig] (declare_uniform_ptr K (length sig)) s)"
proof -
  have "res_sat outs_in_bounds (alloc_inv b (k + (0 + length [0..<length sig])))
            (for_each [0..<length sig] (declare_uniform_ptr K (length sig)) s)"
  proof (rule res_sat_for_each[where I = "\<lambda>j. alloc_inv b (k + j)"])
    show "alloc_inv b (k + 0) s" using a by simp
  next
    fix i s j assume i: "i \<in> set [0..<length sig]" and s: "alloc_inv b (k + j) s"
    have "i < 100" using i n by simp
    moreover have "length sig \<le> 100" using n by simp
    ultimately show "res_sat outs_in_bounds (alloc_inv b (k + Suc j))
                 (declare_uniform_ptr K (length sig) i s)"
      using declare_uniform_ptr_inv[OF s, of i "length sig" K] by (simp only: add_Suc_right)
  qed
  then show ?thesis by (simp only: add_0 length_upt diff_zero)
qed

lemma add_declarations_inv:
  assumes inv: "alloc_inv b 0 st" and n: "length sig < 100"
  shows "res_sat outs_in_bounds (alloc_inv b (9 + 2 * length sig)) (add_declarations K sig st)"
proof -
  have lt: "i < 100" if "i \<in> set [0..<length sig]" for i using that n by simp
  have p1: "res_sat outs_in_bounds (alloc_inv b 0) (for_each [0..<length sig] (scalar_output sig) st)"
    by (rule res_sat_for_each_inv[where I = "alloc_inv b 0", OF _ inv])
       (rule scalar_output_inv, assumption, erule lt)
  have e: "0 + 3 = (3::nat)" "Suc 3 + length sig + length sig + 5 = 9 + 2 * length sig" by simp_all
  have "res_sat outs_in_bounds (alloc_inv b (Suc (0 + 3) + length sig + length sig + 5))
          (add_declarations K sig st)"
    unfolding add_declarations_def
    apply (rule res_sat_then_do[OF p1])
    apply (rule res_sat_then_do[OF declare_vertidx_inv], assumption)
    apply (rule res_sat_then_do[OF declare_uint32_inv], assumption)
    apply (rule res_sat_then_do[OF constants_loop_inv], assumption, rule n)
    apply (rule res_sat_then_do[OF uniform_ptr_loop_inv], assumption, rule n)
    apply (rule declare_output_buffer_inv, assumption)
    using n apply simp
    done
  then show ?thesis by (simp only: e)
qed

lemma AddOutputDumping_locals_inv:
  "res_sat outs_in_bounds (alloc_inv (m ! 3) (9 + 2 * length sig)) (AddOutputDumping_locals K sig m)"
proof (cases "3 < length m")
  case False
  then show ?thesis
    by (simp add: AddOutputDumping_locals_def rd_def then_do_def res_sat_def outs_in_bounds_def)
next
  case True
  have "res_sat outs_in_bounds (alloc_inv (m ! 3) (9 + 2 * length sig))
          (RDCASSERT (length sig < 100) ''numOutputs < 100''
             (then_do (scan_loop K sig m 5 initial_found) (\<lambda>f.
                add_declarations K sig (found.extend f (locals.fields m (m ! 3) [])))))"
  proof (rule res_sat_RDCASSERT, rule res_sat_then_do)
    assume n: "length sig < 100"
    show "res_sat outs_in_bounds (\<lambda>s. length (outs s) = 100) (scan_loop K sig m 5 initial_found)"
      by (rule scan_loop_inv) (use n in \<open>simp_all add: initial_found_def\<close>)
    fix f :: found
    assume "length (outs f) = 100"
    then have "alloc_inv (m ! 3) 0 (found.extend f (locals.fields m (m ! 3) []))"
      by (simp add: alloc_inv_def found.extend_def locals.fields_def)
    then show "res_sat outs_in_bounds (alloc_inv (m ! 3) (9 + 2 * length sig))
                 (add_declarations K sig (found.extend f (locals.fields m (m ! 3) [])))"
      using n by (rule add_declarations_inv)
  qed
  then show ?thesis
    using True by (simp add: AddOutputDumping_locals_def rd_def then_do_def)
qed

lemma distinct_consecutive_ids:
  assumes "n \<le> 2 ^ 32"
  shows "distinct (map (\<lambda>j. (b :: u32) + of_nat j) [0..<n])"
proof -
  have "inj_on (\<lambda>j. b + (of_nat j :: u32)) (set [0..<n])"
  proof (rule inj_onI)
    fix x y assume x: "x \<in> set [0..<n]" and y: "y \<in> set [0..<n]"
      and e: "b + (of_nat x :: u32) = b + of_nat y"
    have "x < 2 ^ 32" "y < 2 ^ 32" using x y assms by simp_all
    then have "unat (of_nat x :: u32) = x" "unat (of_nat y :: u32) = y"
      by (simp_all add: unat_of_nat)
    moreover have "(of_nat x :: u32) = of_nat y" using e by simp
    ultimately show "x = y" by metis
  qed
  then show ?thesis by (simp add: distinct_map)
qed

lemma AddOutputDumping_locals_Inr:
  assumes "AddOutputDumping_locals K sig m = Inr st"
  shows "length sig < 100 \<and> alloc_inv (m ! 3) (9 + 2 * length sig) st"
proof -
  have "alloc_inv (m ! 3) (9 + 2 * length sig) st"
    using AddOutputDumping_locals_inv[of m sig K] assms by (simp add: res_sat_def)
  moreover have "length sig < 100"
    using assms
    by (auto simp: AddOutputDumping_locals_def then_do_def RDCASSERT_def rd_def
        split: if_splits sum.splits)
  ultimately show ?thesis by simp
qed

text \<open>
  Claim C4, amended. When \<^verbatim>\<open>AddOutputDumping\<close> returns, word 3 of the module holds the id
  bound of the incoming module plus the number of inserted type, constant and variable
  instructions, in 32-bit arithmetic (decorations take no identifier). Those
  instructions were given the consecutive identifiers from the old bound on, in the order
  of insertion, each carries its identifier as word 1 or 2, and no identifier is used
  for two of them. Word 3 is written last, from the final value of \<^verbatim>\<open>idBound\<close>.
\<close>

theorem AddOutputDumping_id_bound:
  assumes "AddOutputDumping K sig m = Inr (m', lg, ins)"
  shows "m' ! 3 = m ! 3 + of_nat (length (declared_ids ins)) \<and>
         declared_ids ins = map (\<lambda>j. m ! 3 + of_nat j) [0..<length (declared_ids ins)] \<and>
         distinct (declared_ids ins) \<and>
         list_all carries_id ins"
proof -
  from assms obtain st where st: "AddOutputDumping_locals K sig m = Inr st"
    and l: "3 < length (modSpirv st)"
    and m': "m' = (modSpirv st)[3 := idBound st]" and ins: "ins = inserted st"
    by (auto simp: AddOutputDumping_def then_do_def split: sum.splits if_splits)
  from AddOutputDumping_locals_Inr[OF st]
  have n: "length sig < 100" and inv: "alloc_inv (m ! 3) (9 + 2 * length sig) st" by simp_all
  have ids: "declared_ids ins = map (\<lambda>j. m ! 3 + of_nat j) [0..<length (declared_ids ins)]"
    and cnt: "length (declared_ids ins) \<le> 9 + 2 * length sig"
    and bound: "idBound st = m ! 3 + of_nat (length (declared_ids ins))"
    and car: "list_all carries_id ins"
    using inv by (simp_all add: alloc_inv_def ins)
  have "length (declared_ids ins) \<le> 2 ^ 32" using cnt n by simp
  then have "distinct (map (\<lambda>j. m ! 3 + of_nat j) [0..<length (declared_ids ins)])"
    by (rule distinct_consecutive_ids)
  then have d: "distinct (declared_ids ins)" using ids by simp
  have "m' ! 3 = idBound st" using l by (simp add: m')
  then show ?thesis using bound ids d car by simp
qed

lemma ex_run:
  "AddOutputDumping spv10 ex_sig ex_module = Inr (ex_patched, [], ex_inserted)"
  by code_simp

text \<open>
  Witness for C4: the example module has id bound 10; for the shader with one output
  eleven type, constant and variable instructions are inserted with the identifiers 10
  to 20, and the new bound is 21.
\<close>

theorem AddOutputDumping_id_bound_witness:
  "AddOutputDumping spv10 ex_sig ex_module = Inr (ex_patched, [], ex_inserted) \<and>
   ex_patched ! 3 = ex_module ! 3 + 11 \<and>
   declared_ids ex_inserted = [10, 11, 12, 13, 14, 15, 16, 17, 18, 19, 20] \<and>
   distinct (declared_ids ex_inserted)"
  using AddOutputDumping_id_bound[OF ex_run] ex_run
  by (simp add: ex_inserted_def ex_module_def)

text \<open>
  Counterexample to C4 as stated: for the example module the function inserts 18
  instructions (11 types, constants and variables, 7 decorations), and the id bound
  written to word 3 is 21: the old bound 10 plus 11, neither 4 + 18 nor 4 + 11.
\<close>

theorem AddOutputDumping_id_bound_counterexample:
  "AddOutputDumping spv10 ex_sig ex_module = Inr (ex_patched, [], ex_inserted) \<and>
   ex_patched ! 3 = 21 \<and> 4 + length ex_inserted = 22 \<and>
   4 + length (declared_ids ex_inserted) = 15"
  using ex_run by (simp add: ex_inserted_def ex_patched_def)

text \<open>
  The structure of the output buffer: \<^verbatim>\<open>AddOutputDumping\<close> declares it with one member for
  every output of the signature.
\<close>

lemma struct_words_length:
  "for_each xs (\<lambda>i ws_st. case ws_st of (ws, st) \<Rightarrow>
       then_do (get_out st i) (\<lambda>o_i. Inr (ws @ [basetypeID o_i], st))) (ws, st) = Inr (ws', st')
   \<Longrightarrow> \<exists>bs. ws' = ws @ bs \<and> length bs = length xs"
proof (induction xs arbitrary: ws)
  case Nil
  then show ?case by simp
next
  case (Cons x xs)
  from Cons.prems obtain o_x where "get_out st x = Inr o_x"
    by (cases "get_out st x") (simp_all add: then_do_def)
  then show ?case using Cons.prems Cons.IH[of "ws @ [basetypeID o_x]"]
    by (auto simp: then_do_def)
qed

lemma insert_decl_appends:
  "insert_decl i ws st = Inr st' \<Longrightarrow> inserted st' = inserted st @ [NewDecl i ws]"
  by (auto simp: insert_decl_def insert_words_def then_do_def split: if_splits)

lemma insert_decorations_appends:
  "insert_decorations ds st = Inr st' \<Longrightarrow> inserted st' = inserted st @ map NewDecoration ds"
  by (auto simp: insert_decorations_def insert_words_def then_do_def split: if_splits)

lemma declare_output_buffer_struct:
  assumes "declare_output_buffer K sig st = Inr st'"
  shows "\<exists>i ws. NewDecl i (MakeSPIRVOp K (OpTypeStruct K) (of_nat (2 + length sig)) # i # ws)
                  \<in> set (inserted st') \<and> length ws = length sig"
  using assms
  unfolding declare_output_buffer_def Let_def next_id_def prod.case
  apply (clarsimp simp: then_do_Inr simp del: upt_Suc)
  apply (drule struct_words_length)
  apply (drule insert_decl_appends)+
  apply (simp only: case_prod_beta)
  apply (drule insert_decorations_appends)
  apply (erule exE)
  apply (rule_tac x = "idBound st" in exI)
  apply (rule_tac x = bs in exI)
  apply simp
  done

lemma add_declarations_struct:
  assumes "add_declarations K sig st = Inr st'"
  shows "\<exists>i ws. NewDecl i (MakeSPIRVOp K (OpTypeStruct K) (of_nat (2 + length sig)) # i # ws)
                  \<in> set (inserted st') \<and> length ws = length sig"
proof -
  from assms obtain st5 where "declare_output_buffer K sig st5 = Inr st'"
    unfolding add_declarations_def by (auto simp: then_do_Inr)
  then show ?thesis by (rule declare_output_buffer_struct)
qed

lemma AddOutputDumping_struct:
  assumes "AddOutputDumping K sig m = Inr (m', lg, ins)"
  shows "\<exists>i ws. NewDecl i (MakeSPIRVOp K (OpTypeStruct K) (of_nat (2 + length sig)) # i # ws)
                  \<in> set ins \<and> length ws = length sig"
proof -
  from assms obtain st0 st where "add_declarations K sig st0 = Inr st" and "ins = inserted st"
    unfolding AddOutputDumping_def AddOutputDumping_locals_def RDCASSERT_def
    by (auto simp: then_do_Inr split: if_splits)
  then show ?thesis using add_declarations_struct by blast
qed

text \<open>
  Claim C9. With fewer than 100 outputs no access to \<^verbatim>\<open>outs[100]\<close> is out of bounds,
  whatever the module; with 100 outputs or more (and a module that has a header)
  \<^verbatim>\<open>AddOutputDumping\<close> stops at the assertion \<^verbatim>\<open>numOutputs < 100\<close>, before it touches the
  array; and when it returns, no output has been dropped: the structure it declares for
  the output buffer has the word count \<^verbatim>\<open>2 + numOutputs\<close> and one member for every output.
\<close>

theorem AddOutputDumping_outs_in_bounds:
  "(length sig < 100 \<longrightarrow> AddOutputDumping K sig m \<noteq> Inl (OutOfRange ''outs'')) \<and>
   (100 \<le> length sig \<and> 3 < length m \<longrightarrow>
      AddOutputDumping K sig m = Inl (AssertFailed ''numOutputs < 100'')) \<and>
   (AddOutputDumping K sig m = Inr (m', lg, ins) \<longrightarrow>
      (\<exists>i ws. NewDecl i (MakeSPIRVOp K (OpTypeStruct K) (of_nat (2 + length sig)) # i # ws)
                 \<in> set ins \<and> length ws = length sig))"
proof (intro conjI impI)
  show "AddOutputDumping K sig m \<noteq> Inl (OutOfRange ''outs'')"
  proof (cases "AddOutputDumping_locals K sig m")
    case (Inl e)
    then have "e \<noteq> OutOfRange ''outs''"
      using AddOutputDumping_locals_inv[of m sig K] by (simp add: res_sat_def outs_in_bounds_def)
    then show ?thesis using Inl by (simp add: AddOutputDumping_def then_do_def)
  next
    case (Inr st)
    then show ?thesis by (simp add: AddOutputDumping_def then_do_def)
  qed
next
  assume "100 \<le> length sig \<and> 3 < length m"
  then show "AddOutputDumping K sig m = Inl (AssertFailed ''numOutputs < 100'')"
    by (simp add: AddOutputDumping_def AddOutputDumping_locals_def then_do_def rd_def RDCASSERT_def)
next
  assume "AddOutputDumping K sig m = Inr (m', lg, ins)"
  then show "\<exists>i ws. NewDecl i (MakeSPIRVOp K (OpTypeStruct K) (of_nat (2 + length sig)) # i # ws)
                      \<in> set ins \<and> length ws = length sig"
    by (rule AddOutputDumping_struct)
qed

text \<open>
  Witness for C9: the example shader with one output on the example module, where the
  run returns and the output structure has one member, and a shader with 100 scalar
  outputs.
\<close>

theorem AddOutputDumping_outs_in_bounds_witness:
  "AddOutputDumping spv10 ex_sig ex_module = Inr (ex_patched, [], ex_inserted) \<and>
   (\<exists>i ws. NewDecl i (MakeSPIRVOp spv10 (OpTypeStruct spv10) 3 # i # ws) \<in> set ex_inserted \<and>
            length ws = 1) \<and>
   AddOutputDumping spv10 (replicate 100 \<lparr>sig_compType = eCompType_Float, sig_compCount = 1\<rparr>)
     ex_module = Inl (AssertFailed ''numOutputs < 100'')"
  using AddOutputDumping_outs_in_bounds
      [where sig = ex_sig and K = spv10 and m = ex_module and m' = ex_patched and lg = "[]"
         and ins = ex_inserted]
    AddOutputDumping_outs_in_bounds
      [where sig = "replicate 100 \<lparr>sig_compType = eCompType_Float, sig_compCount = 1\<rparr>"
         and m = ex_module and K = spv10]
    ex_run
  by (simp add: ex_sig_def ex_module_def)

end
